theory Spec2Isabelle
  imports Complex_Main "HOL-Library.Sublist" "HOL-Library.Multiset"
begin

section \<open>Strings and exceptions\<close>

text \<open>
  A Python \<open>str\<close> is a sequence of Unicode code points; \<open>len\<close> and slicing count
  code points. It is modelled as a list of code points, so that the 250-character
  truncation of the rewrite stage counts what Python counts. \<open>ustr\<close> embeds an ASCII
  literal.
\<close>

type_synonym pystr = "nat list"

definition ustr :: "string \<Rightarrow> pystr" where
  "ustr s = map of_char s"

text \<open>
  The exceptions the pipeline can meet. Every one of them is a subclass of Python's
  \<open>Exception\<close>, and carries the text that \<open>str(e)\<close> returns. Interrupts of the
  process (\<open>KeyboardInterrupt\<close>, \<open>SystemExit\<close>), which are not \<open>Exception\<close>s, are
  outside the model.
\<close>

datatype py_error = ValueError pystr | TypeError pystr | Exception pystr

fun str_of_error :: "py_error \<Rightarrow> pystr" where
  "str_of_error (ValueError m) = m"
| "str_of_error (TypeError m) = m"
| "str_of_error (Exception m) = m"

section \<open>State and models (main.py, lines 56-83)\<close>

text \<open>
  \<open>priority_score\<close> is a Python float. Every value the program stores in it is a sum of
  three integers between 0 and 10, which floats represent exactly, so it is an \<open>int\<close>
  here.
\<close>

record article =
  title :: pystr
  description :: pystr
  source :: pystr
  author :: "pystr option"
  url :: pystr
  published_at :: pystr
  image_url :: "pystr option"
  priority_score :: int
  priority_reason :: pystr

record tweet_result =
  tweet_text :: pystr
  tweet_id :: "pystr option"
  tweet_url :: "pystr option"
  success :: bool
  error :: "pystr option"

section \<open>Scoring helpers (main.py, lines 89-108)\<close>

definition TRUSTED_SOURCES :: "(pystr \<times> int) list" where
  "TRUSTED_SOURCES =
    [(ustr ''BBC News'', 10), (ustr ''Reuters'', 10), (ustr ''Associated Press'', 10),
     (ustr ''The Guardian'', 9), (ustr ''CNN'', 8), (ustr ''The New York Times'', 9),
     (ustr ''Al Jazeera'', 8), (ustr ''The Washington Post'', 9), (ustr ''Bloomberg'', 8),
     (ustr ''CNBC'', 7), (ustr ''Financial Times'', 9), (ustr ''NPR'', 8),
     (ustr ''The Wall Street Journal'', 9)]"

text \<open>\<open>TRUSTED_SOURCES.get(key, default)\<close>.\<close>

definition dict_get :: "('k \<times> 'v) list \<Rightarrow> 'k \<Rightarrow> 'v \<Rightarrow> 'v" where
  "dict_get d k dflt = (case map_of d k of None \<Rightarrow> dflt | Some v \<Rightarrow> v)"

subsection \<open>Datetimes\<close>

text \<open>
  A \<open>datetime\<close> holds its wall-clock reading, in microseconds since 0001-01-01T00:00:00,
  and its UTC offset in microseconds: \<open>None\<close> for a naive datetime (no \<open>tzinfo\<close>),
  \<open>Some off\<close> for an aware one.
\<close>

record datetime =
  wall_us :: int
  utcoffset :: "int option"

text \<open>
  \<open>a - b\<close> on datetimes: a timedelta, in microseconds, when both are aware (the
  instants are compared in UTC) or both naive; mixing an aware and a naive datetime
  raises \<open>TypeError\<close>.
\<close>

definition datetime_sub :: "datetime \<Rightarrow> datetime \<Rightarrow> py_error + int" where
  "datetime_sub a b =
     (case (utcoffset a, utcoffset b) of
        (Some oa, Some ob) \<Rightarrow> Inr ((wall_us a - oa) - (wall_us b - ob))
      | (None, None) \<Rightarrow> Inr (wall_us a - wall_us b)
      | _ \<Rightarrow> Inl (TypeError (ustr ''can't subtract offset-naive and offset-aware datetimes'')))"

text \<open>\<open>datetime.now(timezone.utc)\<close> at the UTC instant \<open>now\<close>.\<close>

definition now_utc :: "int \<Rightarrow> datetime" where
  "now_utc now = \<lparr>wall_us = now, utcoffset = Some 0\<rparr>"

text \<open>
  \<open>timedelta.total_seconds() / 3600\<close>. The program computes it in floating point; the
  quotient is compared only with 6, 24, 48 and 168, and for every timedelta (a whole
  number of microseconds below \<open>10^18\<close>) the rounded quotient lies on the same side of
  these four numbers as the exact one (a timedelta one microsecond past a breakpoint
  is \<open>2.7 * 10^-10\<close> hours past it, five orders of magnitude more than the
  rounding error of the two divisions). The exact rational is used here.
\<close>

definition hours_of :: "int \<Rightarrow> rat" where
  "hours_of td_us = of_int td_us / 1000000 / 3600"

text \<open>\<open>published_at.replace('Z', '+00:00')\<close>.\<close>

definition replace_Z :: "pystr \<Rightarrow> pystr" where
  "replace_Z s = concat (map (\<lambda>c. if c = of_char CHR ''Z'' then ustr ''+00:00'' else [c]) s)"

text \<open>
  The body of the \<open>try\<close> block of \<open>calculate_recency_score\<close>. The parser
  \<open>datetime.fromisoformat\<close> belongs to the Python library and its accepted formats
  depend on the Python version; it is a parameter, returning \<open>ValueError\<close> for a string
  it rejects. \<open>now\<close> is the clock reading of this call.
\<close>

definition recency_try :: "(pystr \<Rightarrow> py_error + datetime) \<Rightarrow> int \<Rightarrow> pystr \<Rightarrow> py_error + int" where
  "recency_try fromisoformat now published =
     (case fromisoformat (replace_Z published) of
        Inl e \<Rightarrow> Inl e
      | Inr pub_date \<Rightarrow>
          (case datetime_sub (now_utc now) pub_date of
             Inl e \<Rightarrow> Inl e
           | Inr td \<Rightarrow>
               (let hours_old = hours_of td in
                if hours_old \<le> 6 then Inr 10
                else if hours_old \<le> 24 then Inr 8
                else if hours_old \<le> 48 then Inr 6
                else if hours_old \<le> 168 then Inr 4
                else Inr 2)))"

text \<open>The bare \<open>except:\<close> turns every exception of the body into the score 3.\<close>

definition calculate_recency_score :: "(pystr \<Rightarrow> py_error + datetime) \<Rightarrow> int \<Rightarrow> pystr \<Rightarrow> int" where
  "calculate_recency_score fromisoformat now published =
     (case recency_try fromisoformat now published of Inl _ \<Rightarrow> 3 | Inr r \<Rightarrow> r)"

text \<open>\<open>2.0 if url else 0.0\<close>: \<open>None\<close> and the empty string are both false.\<close>

definition truthy :: "pystr option \<Rightarrow> bool" where
  "truthy u = (case u of None \<Rightarrow> False | Some s \<Rightarrow> s \<noteq> [])"

definition has_image_bonus :: "pystr option \<Rightarrow> int" where
  "has_image_bonus u = (if truthy u then 2 else 0)"

section \<open>Node 2: prioritize (main.py, lines 151-162)\<close>

text \<open>\<open>str(n)\<close> for an integer, as the f-string of \<open>priority_reason\<close> prints it.\<close>

fun str_nat :: "nat \<Rightarrow> pystr" where
  "str_nat n = (if n < 10 then [48 + n] else str_nat (n div 10) @ [48 + n mod 10])"

declare str_nat.simps [simp del]

definition str_int :: "int \<Rightarrow> pystr" where
  "str_int i = (if i < 0 then of_char CHR ''-'' # str_nat (nat (- i)) else str_nat (nat i))"

text \<open>
  \<open>GraphState\<close> is a \<open>TypedDict\<close> with \<open>total=False\<close>: every key may be missing. The
  \<open>auto_post\<close> entry is read both as a bool and as a string (lines 191-195).
\<close>

datatype auto_post_val = APBool bool | APStr pystr

record graph_state =
  topic :: "pystr option"
  articles :: "article list option"
  top_articles :: "article list option"
  rewritten_tweets :: "pystr list option"
  auto_post :: "auto_post_val option"
  num_tweets_to_post :: "int option"
  tweet_results :: "tweet_result list option"

text \<open>\<open>state.get(key, default)\<close>.\<close>

definition state_get :: "'a option \<Rightarrow> 'a \<Rightarrow> 'a" where
  "state_get v dflt = (case v of None \<Rightarrow> dflt | Some x \<Rightarrow> x)"

text \<open>The body of the \<open>for\<close> loop of lines 153-158, on one article.\<close>

definition score_article :: "(pystr \<Rightarrow> py_error + datetime) \<Rightarrow> int \<Rightarrow> article \<Rightarrow> article" where
  "score_article fromisoformat now a =
     (let src_score = dict_get TRUSTED_SOURCES (source a) 5;
          recency = calculate_recency_score fromisoformat now (published_at a);
          total = src_score + recency + has_image_bonus (image_url a)
      in a\<lparr>priority_score := total,
           priority_reason := ustr ''source='' @ str_int src_score @ ustr '', recency='' @ str_int recency\<rparr>)"

text \<open>
  The loop itself. Each iteration reads the clock anew: \<open>clock i\<close> is the reading of
  \<open>datetime.now\<close> in iteration \<open>i\<close>. The articles of the list are distinct
  objects (\<open>fetch_news\<close> builds one per record), so scoring one leaves the others as
  they are.
\<close>

fun score_loop :: "(pystr \<Rightarrow> py_error + datetime) \<Rightarrow> (nat \<Rightarrow> int) \<Rightarrow> nat \<Rightarrow> article list \<Rightarrow> article list" where
  "score_loop fromisoformat clock i [] = []"
| "score_loop fromisoformat clock i (a # as) =
     score_article fromisoformat (clock i) a # score_loop fromisoformat clock (Suc i) as"

text \<open>
  \<open>sorted(xs, key=k, reverse=True)\<close>. Python's sort is stable, and with
  \<open>reverse=True\<close> it reverses the list, sorts it stably in ascending order and reverses
  the result. \<open>sort_key\<close> is the stable insertion sort of the HOL library.
\<close>

definition sorted_reverse :: "('a \<Rightarrow> int) \<Rightarrow> 'a list \<Rightarrow> 'a list" where
  "sorted_reverse k xs = rev (sort_key k (rev xs))"

definition prioritize_articles ::
    "(pystr \<Rightarrow> py_error + datetime) \<Rightarrow> (nat \<Rightarrow> int) \<Rightarrow> graph_state \<Rightarrow> article list" where
  "prioritize_articles fromisoformat clock state =
     (let arts = score_loop fromisoformat clock 0 (state_get (articles state) []);
          sorted_articles = sorted_reverse priority_score arts;
          top = take 5 sorted_articles
      in top)"

subsection \<open>A concrete ISO-8601 parser for closed examples\<close>

text \<open>
  \<open>fromisoformat_basic\<close> models \<open>datetime.fromisoformat\<close> on the two shapes
  \<open>YYYY-MM-DDTHH:MM:SS\<close> and \<open>YYYY-MM-DDTHH:MM:SS+HH:MM\<close> (or \<open>-HH:MM\<close>), which every
  Python version with \<open>fromisoformat\<close> parses this way: the first to a naive datetime,
  the second to an aware one. The two digit pairs of an offset are not checked one
  by one: as in Python, the offset is accepted when it is less than 24 hours, so
  \<open>+00:60\<close> is one hour. The message of the \<open>ValueError\<close> is abbreviated (Python
  appends the rejected string to it); the program never reads it. A string of another
  shape is rejected here, also where Python parses it. The parser is used only to
  evaluate the scoring functions on concrete timestamps of these two shapes; the
  general theorems hold for every parser.
\<close>

definition parse_num :: "pystr \<Rightarrow> int option" where
  "parse_num s =
     (if s \<noteq> [] \<and> list_all (\<lambda>c. 48 \<le> c \<and> c \<le> 57) s
      then Some (foldl (\<lambda>a c. 10 * a + (int c - 48)) 0 s) else None)"

definition is_leap :: "int \<Rightarrow> bool" where
  "is_leap y = (y mod 4 = 0 \<and> (y mod 100 \<noteq> 0 \<or> y mod 400 = 0))"

definition days_in_month :: "int \<Rightarrow> int \<Rightarrow> int" where
  "days_in_month y m =
     (if m = 2 then (if is_leap y then 29 else 28)
      else if m = 4 \<or> m = 6 \<or> m = 9 \<or> m = 11 then 30 else 31)"

definition ymd2ord :: "int \<Rightarrow> int \<Rightarrow> int \<Rightarrow> int" where
  "ymd2ord y m d =
     (y - 1) * 365 + (y - 1) div 4 - (y - 1) div 100 + (y - 1) div 400
       + sum_list (map (days_in_month y) [1..m - 1]) + d"

definition parse_offset :: "pystr \<Rightarrow> int option" where
  "parse_offset s =
     (if length s = 6 \<and> (s ! 0 = of_char CHR ''+'' \<or> s ! 0 = of_char CHR ''-'') \<and> s ! 3 = of_char CHR '':''
      then (case (parse_num (take 2 (drop 1 s)), parse_num (take 2 (drop 4 s))) of
              (Some h, Some m) \<Rightarrow>
                 if 86400 \<le> h * 3600 + m * 60 then None
                 else Some ((if s ! 0 = of_char CHR ''-'' then - 1 else 1)
                             * (h * 3600 + m * 60) * 1000000)
            | _ \<Rightarrow> None)
      else None)"

definition fromisoformat_basic :: "pystr \<Rightarrow> py_error + datetime" where
  "fromisoformat_basic s =
     (let bad = Inl (ValueError (ustr ''Invalid isoformat string'')) in
      if length s \<noteq> 19 \<and> length s \<noteq> 25 then bad
      else if s ! 4 \<noteq> of_char CHR ''-'' \<or> s ! 7 \<noteq> of_char CHR ''-'' \<or> s ! 10 \<noteq> of_char CHR ''T''
              \<or> s ! 13 \<noteq> of_char CHR '':'' \<or> s ! 16 \<noteq> of_char CHR '':'' then bad
      else
        (case (parse_num (take 4 s), parse_num (take 2 (drop 5 s)), parse_num (take 2 (drop 8 s)),
               parse_num (take 2 (drop 11 s)), parse_num (take 2 (drop 14 s)),
               parse_num (take 2 (drop 17 s))) of
           (Some y, Some m, Some d, Some hh, Some mm, Some ss) \<Rightarrow>
              if y < 1 \<or> m < 1 \<or> 12 < m \<or> d < 1 \<or> days_in_month y m < d
                 \<or> 23 < hh \<or> 59 < mm \<or> 59 < ss then bad
              else
                (let wall = ((ymd2ord y m d - 1) * 86400 + hh * 3600 + mm * 60 + ss) * 1000000 in
                 if length s = 19 then Inr \<lparr>wall_us = wall, utcoffset = None\<rparr>
                 else (case parse_offset (drop 19 s) of
                         None \<Rightarrow> bad
                       | Some off \<Rightarrow> Inr \<lparr>wall_us = wall, utcoffset = Some off\<rparr>))
         | _ \<Rightarrow> bad))"

section \<open>Node 3: rewrite (main.py, lines 166-182)\<close>

text \<open>
  \<open>str.strip()\<close> removes the leading and trailing characters for which
  \<open>str.isspace\<close> holds: the Unicode whitespace code points.
\<close>

definition is_space :: "nat \<Rightarrow> bool" where
  "is_space c =
     ((9 \<le> c \<and> c \<le> 13) \<or> (28 \<le> c \<and> c \<le> 32) \<or> c = 133 \<or> c = 160 \<or> c = 5760
      \<or> (8192 \<le> c \<and> c \<le> 8202) \<or> c = 8232 \<or> c = 8233 \<or> c = 8239 \<or> c = 8287
      \<or> c = 12288)"

definition strip :: "pystr \<Rightarrow> pystr" where
  "strip s = rev (dropWhile is_space (rev (dropWhile is_space s)))"

definition lbrack :: nat where "lbrack = of_char CHR ''[''"
definition rbrack :: nat where "rbrack = of_char CHR '']''"
definition lparen :: nat where "lparen = of_char CHR ''(''"
definition rparen :: nat where "rparen = of_char CHR '')''"

text \<open>
  The regular expression \<open>\[([^\]]+)\]\([^)]+\)\<close> matched at the start of \<open>s\<close>, as
  \<open>re\<close> matches it: an opening bracket, the longest run of characters other than
  \<open>]\<close> (group 1, not empty), \<open>](\<close>, the longest run of characters other than \<open>)\<close>
  (not empty), and \<open>)\<close>. Each greedy run ends at the first excluded character or at
  the end of the string, and the pattern goes on with that excluded character, so no
  shorter run can match: backtracking never finds a match that the longest runs miss.
  The result is group 1 and the length of the match.
\<close>

definition match_link :: "pystr \<Rightarrow> (pystr \<times> nat) option" where
  "match_link s =
     (case s of
        [] \<Rightarrow> None
      | c # r \<Rightarrow>
          if c \<noteq> lbrack then None
          else
            (let text = takeWhile (\<lambda>x. x \<noteq> rbrack) r;
                 r1 = drop (length text) r
             in if text = [] then None
                else
                  (case r1 of
                     a # b # r2 \<Rightarrow>
                       if a = rbrack \<and> b = lparen then
                         (let target = takeWhile (\<lambda>x. x \<noteq> rparen) r2;
                              r3 = drop (length target) r2
                          in if target = [] then None
                             else (case r3 of
                                     [] \<Rightarrow> None
                                   | d # r4 \<Rightarrow>
                                       if d = rparen
                                       then Some (text, 1 + length text + 2 + length target + 1)
                                       else None))
                       else None
                   | _ \<Rightarrow> None)))"

text \<open>
  \<open>re.sub(pattern, r'\1', s)\<close>: one scan from the left; at each position a match is
  replaced by its group 1 and the scan goes on after the match, and a character where
  no match starts is copied.
\<close>

fun re_sub_links :: "pystr \<Rightarrow> pystr" where
  "re_sub_links [] = []"
| "re_sub_links (c # r) =
     (case match_link (c # r) of
        Some (text, n) \<Rightarrow> text @ re_sub_links (drop (n - 1) r)
      | None \<Rightarrow> c # re_sub_links r)"

text \<open>Lines 179-180 on one model output: strip, substitute, keep the first 250.\<close>

definition rewrite_text :: "pystr \<Rightarrow> pystr" where
  "rewrite_text output = take 250 (re_sub_links (strip output))"

definition rewrite_prompt :: "article \<Rightarrow> pystr" where
  "rewrite_prompt a =
     ustr ''Write a factual, engaging tweet (max 250 characters, no URLs/markdown). ''
     @ ustr ''Summarize the key point and make it eye-catching.'' @ [10, 10]
     @ ustr ''Title: '' @ title a @ [10] @ ustr ''Description: '' @ description a @ [10]
     @ ustr ''Source: '' @ source a"

definition system_message :: pystr where
  "system_message = ustr ''You are an expert journalist summarizing news for social media.''"

text \<open>
  The loop of \<open>rewrite_news\<close>. The language model is outside the program: \<open>llm\<close> takes
  the state \<open>w\<close> of the outside world, the system message and the prompt, and returns
  the text of its answer or raises, with the new state of the world. An exception of
  the model is not caught: it ends the stage.
\<close>

fun rewrite_loop ::
    "('w \<Rightarrow> pystr \<Rightarrow> pystr \<Rightarrow> (py_error + pystr) \<times> 'w) \<Rightarrow> 'w \<Rightarrow> article list
       \<Rightarrow> (py_error + pystr list) \<times> 'w" where
  "rewrite_loop llm w [] = (Inr [], w)"
| "rewrite_loop llm w (a # as) =
     (case llm w system_message (rewrite_prompt a) of
        (Inl e, w1) \<Rightarrow> (Inl e, w1)
      | (Inr answer, w1) \<Rightarrow>
          (case rewrite_loop llm w1 as of
             (Inl e, w2) \<Rightarrow> (Inl e, w2)
           | (Inr rewritten, w2) \<Rightarrow> (Inr (rewrite_text answer # rewritten), w2)))"

definition rewrite_news ::
    "('w \<Rightarrow> pystr \<Rightarrow> pystr \<Rightarrow> (py_error + pystr) \<times> 'w) \<Rightarrow> 'w \<Rightarrow> graph_state
       \<Rightarrow> (py_error + pystr list) \<times> 'w" where
  "rewrite_news llm w state = rewrite_loop llm w (state_get (top_articles state) [])"

section \<open>Node 4: post to Twitter (main.py, lines 186-260)\<close>

subsection \<open>The world outside the program\<close>

text \<open>
  The stage talks to an image server (\<open>requests.get\<close>), to the local temporary
  directory, and to Twitter through two clients. Their answers are not the program's:
  each operation takes the state \<open>'w\<close> of the outside world and returns its outcome,
  a value or an exception, with the new state of the world. A client that failed to
  initialise at import time (lines 24-50) is \<open>None\<close>.

  Console output (\<open>print\<close>) is left out of the model.
\<close>

type_synonym bytes = "nat list"

record http_response =
  status_code :: int
  content :: bytes

datatype tmp_op = TmpCreate | TmpWrite | TmpFlush

record 'w platform =
  requests_get :: "'w \<Rightarrow> pystr \<Rightarrow> (py_error + http_response) \<times> 'w"
  tmp_fault :: "'w \<Rightarrow> tmp_op \<Rightarrow> py_error option \<times> 'w"
  twitter_api_v1 :: "('w \<Rightarrow> nat \<Rightarrow> bytes \<Rightarrow> (py_error + int) \<times> 'w) option"
  twitter_client :: "('w \<Rightarrow> pystr \<Rightarrow> int list option \<Rightarrow> (py_error + pystr) \<times> 'w) option"

text \<open>
  \<open>requests_get w u\<close> is \<open>requests.get(u, timeout=10)\<close>. \<open>tmp_fault w op\<close> tells whether
  the local file operation \<open>op\<close> raises. The media client, when present, is
  \<open>media_upload(name)\<close>, given the name of the file and the bytes it holds, returning
  \<open>media.media_id\<close>. The tweet client, when present, is \<open>create_tweet(text, media_ids)\<close>
  followed by the reading of \<open>resp.data["id"]\<close> and the construction of the
  \<open>TweetResult\<close>, which one \<open>try\<close> block holds: it returns the id of the tweet, a
  string, or the exception that one of these steps raised.

  What the program did to the world is kept in the run state: the temporary files,
  named by their position in \<open>tmpdir\<close>, and the log of the calls made to the image
  server and to Twitter.
\<close>

record tmpfile =
  file_data :: bytes
  is_open :: bool

datatype call = HttpGet pystr | MediaUpload nat | CreateTweet pystr "int list option"

record 'w run_state =
  world :: 'w
  tmpdir :: "tmpfile list"
  calls :: "call list"

definition log_call :: "call \<Rightarrow> 'w run_state \<Rightarrow> 'w run_state" where
  "log_call c st = st\<lparr>calls := calls st @ [c]\<rparr>"

subsection \<open>The image attempt (lines 220-233)\<close>

text \<open>
  The body of the \<open>with\<close> block, on the open temporary file \<open>name\<close>: write, flush,
  upload. An exception of any step leaves the block at once.
\<close>

definition write_and_upload ::
    "'w platform \<Rightarrow> ('w \<Rightarrow> nat \<Rightarrow> bytes \<Rightarrow> (py_error + int) \<times> 'w) \<Rightarrow> 'w run_state \<Rightarrow> nat \<Rightarrow> bytes
       \<Rightarrow> (py_error + int) \<times> 'w run_state" where
  "write_and_upload P media_upload st name bs =
     (case tmp_fault P (world st) TmpWrite of
        (Some e, w1) \<Rightarrow> (Inl e, st\<lparr>world := w1\<rparr>)
      | (None, w1) \<Rightarrow>
          (let st1 = st\<lparr>world := w1,
                        tmpdir := (tmpdir st)[name := \<lparr>file_data = bs, is_open = True\<rparr>]\<rparr>
           in case tmp_fault P w1 TmpFlush of
                (Some e, w2) \<Rightarrow> (Inl e, st1\<lparr>world := w2\<rparr>)
              | (None, w2) \<Rightarrow>
                  (case media_upload w2 name bs of
                     (r, w3) \<Rightarrow> (r, log_call (MediaUpload name) (st1\<lparr>world := w3\<rparr>)))))"

text \<open>
  \<open>with tempfile.NamedTemporaryFile(suffix=".jpg", delete=False) as tmp\<close>: the file is
  created and opened, the body runs, and leaving the block, with or without an
  exception, closes the file. With \<open>delete=False\<close> closing does not remove it, and the
  program has no other statement that removes a file.
\<close>

definition with_tmpfile ::
    "'w platform \<Rightarrow> ('w \<Rightarrow> nat \<Rightarrow> bytes \<Rightarrow> (py_error + int) \<times> 'w) \<Rightarrow> 'w run_state \<Rightarrow> bytes
       \<Rightarrow> (py_error + int) \<times> 'w run_state" where
  "with_tmpfile P media_upload st bs =
     (case tmp_fault P (world st) TmpCreate of
        (Some e, w1) \<Rightarrow> (Inl e, st\<lparr>world := w1\<rparr>)
      | (None, w1) \<Rightarrow>
          (let name = length (tmpdir st);
               st1 = st\<lparr>world := w1, tmpdir := tmpdir st @ [\<lparr>file_data = [], is_open = True\<rparr>]\<rparr>
           in case write_and_upload P media_upload st1 name bs of
                (r, st2) \<Rightarrow>
                  (r, st2\<lparr>tmpdir := (tmpdir st2)[name := (tmpdir st2 ! name)\<lparr>is_open := False\<rparr>]\<rparr>)))"

text \<open>
  Lines 217-233: \<open>media_id\<close> starts as \<open>None\<close>; the attempt is made only for a true
  \<open>image_url\<close>; \<open>except Exception\<close> ends a failed attempt with \<open>media_id\<close> still \<open>None\<close>.
\<close>

definition attach_image ::
    "'w platform \<Rightarrow> ('w \<Rightarrow> nat \<Rightarrow> bytes \<Rightarrow> (py_error + int) \<times> 'w) \<Rightarrow> 'w run_state \<Rightarrow> article
       \<Rightarrow> int option \<times> 'w run_state" where
  "attach_image P media_upload st a =
     (case image_url a of
        None \<Rightarrow> (None, st)
      | Some iu \<Rightarrow>
          if iu = [] then (None, st)
          else
            (case requests_get P (world st) iu of
               (Inl e, w1) \<Rightarrow> (None, log_call (HttpGet iu) (st\<lparr>world := w1\<rparr>))
             | (Inr resp, w1) \<Rightarrow>
                 (let st1 = log_call (HttpGet iu) (st\<lparr>world := w1\<rparr>)
                  in if status_code resp = 200
                     then (case with_tmpfile P media_upload st1 (content resp) of
                             (Inl e, st2) \<Rightarrow> (None, st2)
                           | (Inr media_id, st2) \<Rightarrow> (Some media_id, st2))
                     else (None, st1))))"

subsection \<open>One pair, and the loop (lines 215-258)\<close>

definition full_tweet_of :: "pystr \<Rightarrow> article \<Rightarrow> pystr" where
  "full_tweet_of tweet a = tweet @ [10, 10] @ url a"

text \<open>\<open>if media_id\<close>: \<open>None\<close> and 0 are false.\<close>

definition media_ids_of :: "int option \<Rightarrow> int list option" where
  "media_ids_of media_id =
     (case media_id of None \<Rightarrow> None | Some m \<Rightarrow> if m \<noteq> 0 then Some [m] else None)"

definition post_one ::
    "'w platform \<Rightarrow> ('w \<Rightarrow> nat \<Rightarrow> bytes \<Rightarrow> (py_error + int) \<times> 'w)
       \<Rightarrow> ('w \<Rightarrow> pystr \<Rightarrow> int list option \<Rightarrow> (py_error + pystr) \<times> 'w)
       \<Rightarrow> 'w run_state \<Rightarrow> pystr \<times> article \<Rightarrow> tweet_result \<times> 'w run_state" where
  "post_one P media_upload create_tweet st pair =
     (let full_tweet = full_tweet_of (fst pair) (snd pair)
      in case attach_image P media_upload st (snd pair) of
           (media_id, st1) \<Rightarrow>
             (case create_tweet (world st1) full_tweet (media_ids_of media_id) of
                (r, w2) \<Rightarrow>
                  (let st2 = log_call (CreateTweet full_tweet (media_ids_of media_id)) (st1\<lparr>world := w2\<rparr>)
                   in case r of
                        Inr tid \<Rightarrow>
                          (\<lparr>tweet_text = full_tweet, tweet_id = Some tid,
                            tweet_url = Some (ustr ''https://x.com/user/status/'' @ tid),
                            success = True, error = None\<rparr>, st2)
                      | Inl e \<Rightarrow>
                          (\<lparr>tweet_text = full_tweet, tweet_id = None, tweet_url = None,
                            success = False, error = Some (str_of_error e)\<rparr>, st2))))"

fun post_loop ::
    "'w platform \<Rightarrow> ('w \<Rightarrow> nat \<Rightarrow> bytes \<Rightarrow> (py_error + int) \<times> 'w)
       \<Rightarrow> ('w \<Rightarrow> pystr \<Rightarrow> int list option \<Rightarrow> (py_error + pystr) \<times> 'w)
       \<Rightarrow> 'w run_state \<Rightarrow> (pystr \<times> article) list \<Rightarrow> tweet_result list \<times> 'w run_state" where
  "post_loop P media_upload create_tweet st [] = ([], st)"
| "post_loop P media_upload create_tweet st (pair # pairs) =
     (case post_one P media_upload create_tweet st pair of
        (r, st1) \<Rightarrow>
          (case post_loop P media_upload create_tweet st1 pairs of
             (rs, st2) \<Rightarrow> (r # rs, st2)))"

text \<open>The two records of lines 246-257, and the calls that create a tweet.\<close>

definition failure_result :: "pystr \<Rightarrow> py_error \<Rightarrow> tweet_result" where
  "failure_result full e = \<lparr>tweet_text = full, tweet_id = None, tweet_url = None,
     success = False, error = Some (str_of_error e)\<rparr>"

definition success_result :: "pystr \<Rightarrow> pystr \<Rightarrow> tweet_result" where
  "success_result full tid = \<lparr>tweet_text = full, tweet_id = Some tid,
     tweet_url = Some (ustr ''https://x.com/user/status/'' @ tid), success = True, error = None\<rparr>"

fun is_create :: "call \<Rightarrow> bool" where
  "is_create (CreateTweet t m) = True"
| "is_create _ = False"

subsection \<open>The stage (lines 186-213, 260)\<close>

text \<open>
  \<open>str.lower()\<close>. On ASCII it maps \<open>A\<close>..\<open>Z\<close> to \<open>a\<close>..\<open>z\<close>. Outside ASCII the model
  leaves a code point as it is, where Python lowers it by the Unicode tables; the
  program only compares the result with \<open>"true"\<close>, and no code point outside ASCII has
  \<open>t\<close>, \<open>r\<close>, \<open>u\<close> or \<open>e\<close> in its lower case, so the comparison comes out the same.
\<close>

definition py_lower :: "pystr \<Rightarrow> pystr" where
  "py_lower s = map (\<lambda>c. if 65 \<le> c \<and> c \<le> 90 then c + 32 else c) s"

text \<open>Lines 191-195: a string is compared with \<open>"true"\<close>, anything else goes through \<open>bool\<close>.\<close>

definition auto_post_flag :: "auto_post_val option \<Rightarrow> bool" where
  "auto_post_flag raw =
     (case state_get raw (APBool False) of
        APStr s \<Rightarrow> py_lower s = ustr ''true''
      | APBool b \<Rightarrow> b)"

text \<open>
  The slice \<open>xs[:n]\<close> for an integer \<open>n\<close>: the first \<open>n\<close> elements, and for a negative
  \<open>n\<close> all but the last \<open>-n\<close>.
\<close>

definition slice_to :: "'a list \<Rightarrow> int \<Rightarrow> 'a list" where
  "slice_to xs n = (if n < 0 then take (length xs - nat (- n)) xs else take (nat n) xs)"

definition preview_result :: "pystr \<Rightarrow> tweet_result" where
  "preview_result t = \<lparr>tweet_text = t, tweet_id = None, tweet_url = None, success = False,
     error = Some (ustr ''Auto-post disabled'')\<rparr>"

definition post_to_twitter ::
    "'w platform \<Rightarrow> 'w run_state \<Rightarrow> graph_state \<Rightarrow> (py_error + tweet_result list) \<times> 'w run_state" where
  "post_to_twitter P st state =
     (let tweets = state_get (rewritten_tweets state) [];
          arts = state_get (top_articles state) [];
          ap = auto_post_flag (auto_post state);
          num_to_post = state_get (num_tweets_to_post state) 1
      in if \<not> ap then (Inr (map preview_result (slice_to tweets num_to_post)), st)
         else
           (case (twitter_client P, twitter_api_v1 P) of
              (Some create_tweet, Some media_upload) \<Rightarrow>
                (case post_loop P media_upload create_tweet st
                        (zip (slice_to tweets num_to_post) (slice_to arts num_to_post)) of
                   (rs, st') \<Rightarrow> (Inr rs, st'))
            | _ \<Rightarrow> (Inl (Exception (ustr ''Twitter clients not initialized properly'')), st)))"

subsection \<open>The entry point's configuration (lines 284-298)\<close>

text \<open>
  \<open>main\<close> reads the environment, a map from names to strings, and builds the input
  state, in which every key is present. \<open>py_int\<close> is Python's \<open>int\<close> on strings, a
  parameter like the date parser.
\<close>

definition getenv :: "(pystr \<rightharpoonup> pystr) \<Rightarrow> pystr \<Rightarrow> pystr \<Rightarrow> pystr" where
  "getenv env k dflt = (case env k of None \<Rightarrow> dflt | Some v \<Rightarrow> v)"

definition main_input_state ::
    "(pystr \<Rightarrow> py_error + int) \<Rightarrow> (pystr \<rightharpoonup> pystr) \<Rightarrow> py_error + graph_state" where
  "main_input_state py_int env =
     (let tp = getenv env (ustr ''NEWS_TOPIC'') (ustr ''india'');
          ap = (py_lower (getenv env (ustr ''AUTO_POST_TWEETS'') (ustr ''false'')) = ustr ''true'')
      in case py_int (getenv env (ustr ''NUM_TWEETS_TO_POST'') (ustr ''2'')) of
           Inl e \<Rightarrow> Inl e
         | Inr num_tweets \<Rightarrow>
             Inr \<lparr>topic = Some tp, articles = Some [], top_articles = Some [],
                  rewritten_tweets = Some [], auto_post = Some (APBool ap),
                  num_tweets_to_post = Some num_tweets, tweet_results = Some []\<rparr>)"

section \<open>Definitions that follow the specification's words\<close>

text \<open>
  The recency breakpoints as the specification lists them: at most 6 hours gives 10,
  at most 24 gives 8, at most 48 gives 6, at most 168 gives 4, older gives 2.
\<close>

definition spec_recency_bracket :: "rat \<Rightarrow> int" where
  "spec_recency_bracket h =
     (if h \<le> 6 then 10 else if h \<le> 24 then 8 else if h \<le> 48 then 6
      else if h \<le> 168 then 4 else 2)"

text \<open>
  The invariant of a publish result as the specification states it: success holds
  exactly when the post id and the post URL are both present and the error is absent,
  and fails exactly when the id and the URL are absent.
\<close>

definition spec_result_invariant :: "tweet_result \<Rightarrow> bool" where
  "spec_result_invariant r =
     ((success r \<longleftrightarrow> tweet_id r \<noteq> None \<and> tweet_url r \<noteq> None \<and> error r = None)
      \<and> (\<not> success r \<longleftrightarrow> tweet_id r = None \<and> tweet_url r = None))"

text \<open>
  The string equals \<open>true\<close> up to the case of its letters: each character is the
  corresponding letter of \<open>true\<close> or its capital, 32 code points below.
\<close>

definition spec_true_ignoring_case :: "pystr \<Rightarrow> bool" where
  "spec_true_ignoring_case s = list_all2 (\<lambda>c d. c = d \<or> c + 32 = d) s (ustr ''true'')"

text \<open>
  A link as the specification writes it, \<open>[text](url)\<close>, at the start of a string:
  \<open>s\<close> is \<open>[\<close>, a non-empty \<open>t\<close> without \<open>]\<close>, then \<open>](\<close>, a non-empty \<open>u\<close> without
  \<open>)\<close>, then \<open>)\<close> and a rest \<open>post\<close>.
\<close>

definition spec_link :: "pystr \<Rightarrow> pystr \<Rightarrow> pystr \<Rightarrow> pystr \<Rightarrow> bool" where
  "spec_link s t u post =
     (s = lbrack # t @ rbrack # lparen # u @ rparen # post
      \<and> t \<noteq> [] \<and> rbrack \<notin> set t \<and> u \<noteq> [] \<and> rparen \<notin> set u)"

text \<open>The string contains the substring \<open>](\<close>.\<close>

fun contains_rbrack_lparen :: "pystr \<Rightarrow> bool" where
  "contains_rbrack_lparen (a # b # r) = ((a = rbrack \<and> b = lparen) \<or> contains_rbrack_lparen (b # r))"
| "contains_rbrack_lparen _ = False"

text \<open>
  A scan of \<open>s\<close> from the left that replaces a link by its text where one starts, and
  copies the character where none starts, writes \<open>](\<close>: it copies a \<open>]\<close> and the next
  character is \<open>(\<close>, which it copies too; or it copies a \<open>]\<close> and a link starts next
  whose text begins with \<open>(\<close>; or it does one of the two later, after a character it
  copies or after a link it replaces.
\<close>

inductive spec_leaves_rbrack_lparen :: "pystr \<Rightarrow> bool" where
  copied_then_lparen: "spec_leaves_rbrack_lparen (rbrack # lparen # r)"
| copied_then_link: "spec_link r t u post \<Longrightarrow> hd t = lparen \<Longrightarrow> spec_leaves_rbrack_lparen (rbrack # r)"
| after_copy: "(\<forall>t u post. \<not> spec_link (c # r) t u post) \<Longrightarrow> spec_leaves_rbrack_lparen r
                \<Longrightarrow> spec_leaves_rbrack_lparen (c # r)"
| after_link: "spec_link s t u post \<Longrightarrow> spec_leaves_rbrack_lparen post \<Longrightarrow> spec_leaves_rbrack_lparen s"

section \<open>Concrete inputs for the closed examples\<close>

text \<open>
  The two articles of the specification's end-to-end scenario, read at
  2024-01-01T11:00:00 UTC: one from BBC News, published an hour before, with an image;
  one from an unlisted source, published ten days before, without an image.
\<close>

definition clock_2024 :: "nat \<Rightarrow> int" where
  "clock_2024 i = 63839703600000000"

definition art_bbc :: article where
  "art_bbc = \<lparr>title = ustr ''A'', description = ustr ''d'', source = ustr ''BBC News'',
     author = None, url = ustr ''https://bbc.example/a'',
     published_at = ustr ''2024-01-01T10:00:00Z'', image_url = Some (ustr ''https://img.example/a.jpg''),
     priority_score = 0, priority_reason = []\<rparr>"

definition art_blog :: article where
  "art_blog = \<lparr>title = ustr ''B'', description = ustr ''d'', source = ustr ''Some Blog'',
     author = None, url = ustr ''https://blog.example/b'',
     published_at = ustr ''2023-12-22T11:00:00Z'', image_url = None,
     priority_score = 0, priority_reason = []\<rparr>"

definition state_of_articles :: "article list \<Rightarrow> graph_state" where
  "state_of_articles xs = \<lparr>topic = None, articles = Some xs, top_articles = None,
     rewritten_tweets = None, auto_post = None, num_tweets_to_post = None,
     tweet_results = None\<rparr>"

text \<open>
  Seven articles read at the same instant, with total scores 7, 22, 18, 18, 18, 8 and
  19 in fetch order: three of them tie at 18.
\<close>

definition mk_article :: "string \<Rightarrow> string \<Rightarrow> string \<Rightarrow> pystr option \<Rightarrow> article" where
  "mk_article t src pub img = \<lparr>title = ustr t, description = [], source = ustr src,
     author = None, url = ustr ''https://news.example/'' @ ustr t,
     published_at = ustr pub, image_url = img, priority_score = 0, priority_reason = []\<rparr>"

definition seven_articles :: "article list" where
  "seven_articles =
     [mk_article ''a1'' ''Some Blog'' ''2023-12-22T11:00:00Z'' None,
      mk_article ''a2'' ''BBC News'' ''2024-01-01T10:00:00Z'' (Some (ustr ''https://img.example/2'')),
      mk_article ''a3'' ''CNN'' ''2024-01-01T10:00:00Z'' None,
      mk_article ''a4'' ''Reuters'' ''2023-12-31T05:00:00Z'' (Some (ustr ''https://img.example/4'')),
      mk_article ''a5'' ''NPR'' ''2024-01-01T10:00:00Z'' None,
      mk_article ''a6'' ''Some Blog'' ''2024-01-01T10:00:00'' None,
      mk_article ''a7'' ''CNBC'' ''2024-01-01T10:00:00Z'' (Some (ustr ''https://img.example/7''))]"

text \<open>A language model that always answers the same text.\<close>

definition llm_fixed :: "pystr \<Rightarrow> unit \<Rightarrow> pystr \<Rightarrow> pystr \<Rightarrow> (py_error + pystr) \<times> unit" where
  "llm_fixed answer w sys prompt = (Inr answer, w)"

text \<open>
  A world for the publish stage, whose state counts the tweets created so far. The
  image server answers 404 for one address, times out for another and serves three
  bytes for every other; no file operation fails; the media upload returns the id 7,
  or is rejected; the first tweet of a run is refused and the later ones get the id
  1001.
\<close>

definition demo_get :: "nat \<Rightarrow> pystr \<Rightarrow> (py_error + http_response) \<times> nat" where
  "demo_get w iu =
     (if iu = ustr ''https://img.example/404'' then Inr \<lparr>status_code = 404, content = []\<rparr>
      else if iu = ustr ''https://img.example/down'' then Inl (Exception (ustr ''timeout''))
      else Inr \<lparr>status_code = 200, content = [255, 216, 255]\<rparr>, w)"

definition demo_upload :: "nat \<Rightarrow> nat \<Rightarrow> bytes \<Rightarrow> (py_error + int) \<times> nat" where
  "demo_upload w name bs = (Inr 7, w)"

definition demo_upload_rejected :: "nat \<Rightarrow> nat \<Rightarrow> bytes \<Rightarrow> (py_error + int) \<times> nat" where
  "demo_upload_rejected w name bs = (Inl (Exception (ustr ''media rejected'')), w)"

definition demo_create :: "nat \<Rightarrow> pystr \<Rightarrow> int list option \<Rightarrow> (py_error + pystr) \<times> nat" where
  "demo_create w txt media =
     (if w = 0 then Inl (Exception (ustr ''403 Forbidden'')) else Inr (ustr ''1001''), Suc w)"

definition demo_platform :: "nat platform" where
  "demo_platform = \<lparr>requests_get = demo_get, tmp_fault = (\<lambda>w op. (None, w)),
     twitter_api_v1 = Some demo_upload, twitter_client = Some demo_create\<rparr>"

definition no_clients :: "nat platform" where
  "no_clients = \<lparr>requests_get = demo_get, tmp_fault = (\<lambda>w op. (None, w)),
     twitter_api_v1 = None, twitter_client = None\<rparr>"

definition st0 :: "nat run_state" where
  "st0 = \<lparr>world = 0, tmpdir = [], calls = []\<rparr>"

definition publish_state :: "pystr list \<Rightarrow> article list \<Rightarrow> auto_post_val option \<Rightarrow> int option \<Rightarrow> graph_state" where
  "publish_state tweets arts ap n = \<lparr>topic = None, articles = None, top_articles = Some arts,
     rewritten_tweets = Some tweets, auto_post = ap, num_tweets_to_post = n,
     tweet_results = None\<rparr>"

text \<open>Python's \<open>int\<close> on a string of ASCII digits, for the closed examples.\<close>

definition int_of_digits :: "pystr \<Rightarrow> py_error + int" where
  "int_of_digits s =
     (case parse_num s of
        None \<Rightarrow> Inl (ValueError (ustr ''invalid literal for int() with base 10''))
      | Some n \<Rightarrow> Inr n)"

text \<open>
  Inputs of the publish stage: an article whose image address answers 404, one whose
  image server times out, and three rewritten posts.
\<close>

definition art_404 :: article where
  "art_404 = art_blog\<lparr>image_url := Some (ustr ''https://img.example/404'')\<rparr>"


definition three_tweets :: "pystr list" where
  "three_tweets = [ustr ''t1'', ustr ''t2'', ustr ''t3'']"

section \<open>Verification: scoring\<close>

lemma recency_parse_error:
  "fromisoformat (replace_Z p) = Inl e \<Longrightarrow> calculate_recency_score fromisoformat now p = 3"
  by (simp add: calculate_recency_score_def recency_try_def)

lemma recency_naive:
  "fromisoformat (replace_Z p) = Inr d \<Longrightarrow> utcoffset d = None
     \<Longrightarrow> calculate_recency_score fromisoformat now p = 3"
  by (simp add: calculate_recency_score_def recency_try_def datetime_sub_def now_utc_def)

lemma recency_aware:
  "fromisoformat (replace_Z p) = Inr d \<Longrightarrow> utcoffset d = Some off
     \<Longrightarrow> calculate_recency_score fromisoformat now p
           = spec_recency_bracket (hours_of (now - (wall_us d - off)))"
  by (simp add: calculate_recency_score_def recency_try_def datetime_sub_def now_utc_def
        spec_recency_bracket_def Let_def)

lemma spec_recency_bracket_antimono:
  "h1 \<le> h2 \<Longrightarrow> spec_recency_bracket h2 \<le> spec_recency_bracket h1"
  by (simp add: spec_recency_bracket_def)

text \<open>
  Claim C3, as stated, fails. The timestamp \<open>2024-01-01T10:00:00\<close> has no UTC offset and
  no \<open>Z\<close>. It is parsable: \<open>fromisoformat\<close> returns a naive datetime. Subtracting it from
  the aware \<open>datetime.now(timezone.utc)\<close> raises \<open>TypeError\<close>, which the bare \<open>except\<close>
  turns into the score 3. So, read one hour later, a parsable timestamp gets a score
  that is none of 10, 8, 6, 4, 2, and that is lower than the score 6 of the aware
  timestamp \<open>2023-12-31T05:00:00+00:00\<close>, which is thirty hours old.
\<close>

theorem recency_naive_timestamp_counterexample:
  "fromisoformat_basic (replace_Z (ustr ''2024-01-01T10:00:00''))
      = Inr \<lparr>wall_us = 63839700000000000, utcoffset = None\<rparr>
   \<and> calculate_recency_score fromisoformat_basic 63839703600000000 (ustr ''2024-01-01T10:00:00'') = 3
   \<and> calculate_recency_score fromisoformat_basic 63839703600000000 (ustr ''2023-12-31T05:00:00+00:00'') = 6"
  by code_simp

text \<open>
  Claim C3, amended. For every parser, clock reading and timestamp string:
  a timestamp that the parser rejects (the empty string of a missing timestamp among
  them) scores 3; a timestamp that parses to a naive datetime (no UTC offset) scores 3
  as well; a timestamp that parses to an aware datetime scores by the elapsed hours
  between its instant and the clock reading, 10 up to 6 hours, 8 up to 24, 6 up to 48,
  4 up to 168 and 2 beyond, the breakpoints included; and over aware timestamps the
  score does not increase when the elapsed hours increase.
\<close>

theorem recency_score_by_elapsed_hours:
  "(fromisoformat (replace_Z p1) = Inl e \<longrightarrow> calculate_recency_score fromisoformat now p1 = 3)
   \<and> (fromisoformat (replace_Z p2) = Inr d2 \<and> utcoffset d2 = None
        \<longrightarrow> calculate_recency_score fromisoformat now p2 = 3)
   \<and> (fromisoformat (replace_Z p3) = Inr d3 \<and> utcoffset d3 = Some o3
        \<longrightarrow> calculate_recency_score fromisoformat now p3
              = spec_recency_bracket (hours_of (now - (wall_us d3 - o3))))
   \<and> (fromisoformat (replace_Z p3) = Inr d3 \<and> utcoffset d3 = Some o3
        \<and> fromisoformat (replace_Z p4) = Inr d4 \<and> utcoffset d4 = Some o4
        \<and> hours_of (now - (wall_us d3 - o3)) \<le> hours_of (now' - (wall_us d4 - o4))
        \<longrightarrow> calculate_recency_score fromisoformat now' p4
              \<le> calculate_recency_score fromisoformat now p3)"
proof (intro conjI impI)
  assume "fromisoformat (replace_Z p1) = Inl e"
  then show "calculate_recency_score fromisoformat now p1 = 3"
    by (rule recency_parse_error)
next
  assume "fromisoformat (replace_Z p2) = Inr d2 \<and> utcoffset d2 = None"
  then show "calculate_recency_score fromisoformat now p2 = 3"
    by (simp add: recency_naive)
next
  assume "fromisoformat (replace_Z p3) = Inr d3 \<and> utcoffset d3 = Some o3"
  then show "calculate_recency_score fromisoformat now p3
               = spec_recency_bracket (hours_of (now - (wall_us d3 - o3)))"
    by (simp add: recency_aware)
next
  assume a: "fromisoformat (replace_Z p3) = Inr d3 \<and> utcoffset d3 = Some o3
        \<and> fromisoformat (replace_Z p4) = Inr d4 \<and> utcoffset d4 = Some o4
        \<and> hours_of (now - (wall_us d3 - o3)) \<le> hours_of (now' - (wall_us d4 - o4))"
  then have "calculate_recency_score fromisoformat now p3
               = spec_recency_bracket (hours_of (now - (wall_us d3 - o3)))"
    and "calculate_recency_score fromisoformat now' p4
               = spec_recency_bracket (hours_of (now' - (wall_us d4 - o4)))"
    by (simp_all add: recency_aware)
  with a show "calculate_recency_score fromisoformat now' p4
                 \<le> calculate_recency_score fromisoformat now p3"
    by (simp add: spec_recency_bracket_antimono)
qed

text \<open>
  The amended claim at concrete inputs, read at 2024-01-01T11:00:00 UTC: the empty
  string is rejected and scores 3; a naive timestamp scores 3; a timestamp exactly six
  hours old scores 10; one thirty hours old scores 6, which is not more.
\<close>

theorem recency_score_by_elapsed_hours_witness:
  "fromisoformat_basic (replace_Z []) = Inl (ValueError (ustr ''Invalid isoformat string''))
   \<and> calculate_recency_score fromisoformat_basic 63839703600000000 [] = 3
   \<and> calculate_recency_score fromisoformat_basic 63839703600000000 (ustr ''2024-01-01T10:00:00'') = 3
   \<and> calculate_recency_score fromisoformat_basic 63839703600000000 (ustr ''2024-01-01T05:00:00Z'') = 10
   \<and> calculate_recency_score fromisoformat_basic 63839703600000000 (ustr ''2023-12-31T05:00:00Z'')
        \<le> calculate_recency_score fromisoformat_basic 63839703600000000 (ustr ''2024-01-01T05:00:00Z'')"
proof -
  have h1: "fromisoformat_basic (replace_Z []) = Inl (ValueError (ustr ''Invalid isoformat string''))"
    by code_simp
  have h2: "fromisoformat_basic (replace_Z (ustr ''2024-01-01T10:00:00''))
              = Inr \<lparr>wall_us = 63839700000000000, utcoffset = None\<rparr>"
    by code_simp
  have h3: "fromisoformat_basic (replace_Z (ustr ''2024-01-01T05:00:00Z''))
              = Inr \<lparr>wall_us = 63839682000000000, utcoffset = Some 0\<rparr>"
    by code_simp
  have h4: "fromisoformat_basic (replace_Z (ustr ''2023-12-31T05:00:00Z''))
              = Inr \<lparr>wall_us = 63839595600000000, utcoffset = Some 0\<rparr>"
    by code_simp
  have h5: "hours_of (63839703600000000 - (63839682000000000 - 0)) = 6"
    and h6: "hours_of (63839703600000000 - (63839595600000000 - 0)) = 30"
    by (simp_all add: hours_of_def)
  show ?thesis
    using h1 h2 h3 h4 h5 h6
      recency_score_by_elapsed_hours [of fromisoformat_basic "[]"
        "ValueError (ustr ''Invalid isoformat string'')" 63839703600000000
        "ustr ''2024-01-01T10:00:00''" "\<lparr>wall_us = 63839700000000000, utcoffset = None\<rparr>"
        "ustr ''2024-01-01T05:00:00Z''" "\<lparr>wall_us = 63839682000000000, utcoffset = Some 0\<rparr>" 0
        "ustr ''2023-12-31T05:00:00Z''" "\<lparr>wall_us = 63839595600000000, utcoffset = Some 0\<rparr>" 0
        63839703600000000]
    by (simp add: spec_recency_bracket_def)
qed

section \<open>Verification: ranking\<close>

lemma distinct_TRUSTED_SOURCES: "distinct (map fst TRUSTED_SOURCES)"
  by (simp add: TRUSTED_SOURCES_def ustr_def)

lemma trust_unlisted:
  "src \<notin> fst ` set TRUSTED_SOURCES \<Longrightarrow> dict_get TRUSTED_SOURCES src 5 = 5"
  by (simp add: dict_get_def map_of_eq_None_iff [THEN iffD2])

lemma trust_listed:
  "(src, v) \<in> set TRUSTED_SOURCES \<Longrightarrow> dict_get TRUSTED_SOURCES src 5 = v"
  by (simp add: dict_get_def map_of_is_SomeI [OF distinct_TRUSTED_SOURCES])

lemma has_image_bonus_cases:
  "has_image_bonus u = (if u = None \<or> u = Some [] then 0 else 2)"
  by (auto simp: has_image_bonus_def truthy_def split: option.splits)

lemma filter_sorted_reverse:
  "filter (\<lambda>y. k y = c) (sorted_reverse k xs) = filter (\<lambda>y. k y = c) xs"
  by (simp add: sorted_reverse_def rev_filter [symmetric] sort_key_stable)

lemma sorted_sorted_reverse: "sorted_wrt (\<lambda>a b. k b \<le> k a) (sorted_reverse k xs)"
proof -
  have "sorted (map k (sort_key k (rev xs)))" by (rule sorted_sort_key)
  then have "sorted_wrt (\<lambda>a b. k a \<le> k b) (sort_key k (rev xs))"
    by (simp add: sorted_wrt_map)
  then show ?thesis
    by (simp add: sorted_reverse_def sorted_wrt_rev)
qed

lemma mset_sorted_reverse: "mset (sorted_reverse k xs) = mset xs"
  by (simp add: sorted_reverse_def)

lemma length_sorted_reverse: "length (sorted_reverse k xs) = length xs"
  by (simp add: sorted_reverse_def)

lemma set_sorted_reverse: "set (sorted_reverse k xs) = set xs"
  by (simp add: sorted_reverse_def)

lemma length_score_loop: "length (score_loop p clock i xs) = length xs"
  by (induction xs arbitrary: i) auto

lemma score_loop_nth:
  "j < length xs \<Longrightarrow> score_loop p clock i xs ! j = score_article p (clock (i + j)) (xs ! j)"
proof (induction xs arbitrary: i j)
  case Nil
  then show ?case by simp
next
  case (Cons a as)
  then show ?case by (cases j) auto
qed

lemma in_prioritize_articles:
  assumes "a' \<in> set (prioritize_articles p clock st)"
  shows "\<exists>i < length (state_get (articles st) []).
           a' = score_article p (clock i) (state_get (articles st) [] ! i)"
proof -
  let ?xs = "state_get (articles st) []"
  from assms have "a' \<in> set (score_loop p clock 0 ?xs)"
    by (auto simp: prioritize_articles_def Let_def set_sorted_reverse dest: in_set_takeD)
  then obtain j where "j < length (score_loop p clock 0 ?xs)" "score_loop p clock 0 ?xs ! j = a'"
    by (auto simp: in_set_conv_nth)
  then show ?thesis
    by (auto simp: length_score_loop score_loop_nth)
qed

lemma score_article_fields:
  "source (score_article p now a) = source a"
  "published_at (score_article p now a) = published_at a"
  "image_url (score_article p now a) = image_url a"
  "priority_score (score_article p now a)
     = dict_get TRUSTED_SOURCES (source a) 5 + calculate_recency_score p now (published_at a)
       + has_image_bonus (image_url a)"
  by (simp_all add: score_article_def Let_def)

text \<open>
  Claim C2. The ranker gives every article, at its position \<open>i\<close> of the fetched
  sequence, the total score source trust + recency (at the clock reading of iteration
  \<open>i\<close>) + image bonus, and leaves its source, timestamp and image URL as they were;
  every article of the ranker's output is one of these. A source that is not a key of
  the trust table has trust 5, a listed source has its table value, and the image
  bonus is 2 when the image URL is present (a non-empty string: Python's \<open>if url\<close>
  counts \<open>None\<close> and the empty string as absent) and 0 otherwise.
\<close>

theorem priority_score_is_sum_of_components:
  "(i < length (state_get (articles state) []) \<longrightarrow>
      (let a = state_get (articles state) [] ! i;
           a' = score_loop fromisoformat clock 0 (state_get (articles state) []) ! i
       in source a' = source a \<and> published_at a' = published_at a \<and> image_url a' = image_url a
          \<and> priority_score a' = dict_get TRUSTED_SOURCES (source a) 5
               + calculate_recency_score fromisoformat (clock i) (published_at a)
               + has_image_bonus (image_url a)))
   \<and> (b \<in> set (prioritize_articles fromisoformat clock state) \<longrightarrow>
        (\<exists>j < length (state_get (articles state) []).
           b = score_loop fromisoformat clock 0 (state_get (articles state) []) ! j
           \<and> priority_score b = dict_get TRUSTED_SOURCES (source b) 5
               + calculate_recency_score fromisoformat (clock j) (published_at b)
               + has_image_bonus (image_url b)))
   \<and> (src \<notin> fst ` set TRUSTED_SOURCES \<longrightarrow> dict_get TRUSTED_SOURCES src 5 = 5)
   \<and> ((src', v) \<in> set TRUSTED_SOURCES \<longrightarrow> dict_get TRUSTED_SOURCES src' 5 = v)
   \<and> has_image_bonus u = (if u = None \<or> u = Some [] then 0 else 2)"
proof (intro conjI impI)
  assume "i < length (state_get (articles state) [])"
  then show "let a = state_get (articles state) [] ! i;
           a' = score_loop fromisoformat clock 0 (state_get (articles state) []) ! i
       in source a' = source a \<and> published_at a' = published_at a \<and> image_url a' = image_url a
          \<and> priority_score a' = dict_get TRUSTED_SOURCES (source a) 5
               + calculate_recency_score fromisoformat (clock i) (published_at a)
               + has_image_bonus (image_url a)"
    by (simp add: Let_def score_loop_nth score_article_fields)
next
  assume "b \<in> set (prioritize_articles fromisoformat clock state)"
  then obtain j where j: "j < length (state_get (articles state) [])"
      "b = score_article fromisoformat (clock j) (state_get (articles state) [] ! j)"
    using in_prioritize_articles by blast
  then have "b = score_loop fromisoformat clock 0 (state_get (articles state) []) ! j
           \<and> priority_score b = dict_get TRUSTED_SOURCES (source b) 5
               + calculate_recency_score fromisoformat (clock j) (published_at b)
               + has_image_bonus (image_url b)"
    by (simp add: score_loop_nth score_article_fields)
  with j(1) show "\<exists>j < length (state_get (articles state) []).
           b = score_loop fromisoformat clock 0 (state_get (articles state) []) ! j
           \<and> priority_score b = dict_get TRUSTED_SOURCES (source b) 5
               + calculate_recency_score fromisoformat (clock j) (published_at b)
               + has_image_bonus (image_url b)"
    by blast
next
  assume "src \<notin> fst ` set TRUSTED_SOURCES"
  then show "dict_get TRUSTED_SOURCES src 5 = 5" by (rule trust_unlisted)
next
  assume "(src', v) \<in> set TRUSTED_SOURCES"
  then show "dict_get TRUSTED_SOURCES src' 5 = v" by (rule trust_listed)
next
  show "has_image_bonus u = (if u = None \<or> u = Some [] then 0 else 2)"
    by (rule has_image_bonus_cases)
qed

text \<open>
  The scenario of the specification as an instance of C2: the BBC News article, one
  hour old and with an image, scores 10 + 10 + 2; the unlisted source's article, ten
  days old and without an image, scores 5 + 2 + 0.
\<close>

theorem priority_score_is_sum_of_components_witness:
  "1 < length (state_get (articles (state_of_articles [art_blog, art_bbc])) [])
   \<and> priority_score (score_loop fromisoformat_basic clock_2024 0 [art_blog, art_bbc] ! 1) = 10 + 10 + 2
   \<and> priority_score (score_loop fromisoformat_basic clock_2024 0 [art_blog, art_bbc] ! 0) = 5 + 2 + 0
   \<and> score_article fromisoformat_basic (clock_2024 1) art_bbc
        \<in> set (prioritize_articles fromisoformat_basic clock_2024 (state_of_articles [art_blog, art_bbc]))
   \<and> priority_score (score_article fromisoformat_basic (clock_2024 1) art_bbc) = 10 + 10 + 2
   \<and> ustr ''Some Blog'' \<notin> fst ` set TRUSTED_SOURCES
   \<and> dict_get TRUSTED_SOURCES (ustr ''Some Blog'') 5 = 5
   \<and> (ustr ''CNN'', 8) \<in> set TRUSTED_SOURCES
   \<and> dict_get TRUSTED_SOURCES (ustr ''CNN'') 5 = 8
   \<and> has_image_bonus (Some (ustr ''https://img.example/a.jpg'')) = 2"
proof -
  let ?S = "state_of_articles [art_blog, art_bbc]"
  let ?b = "score_article fromisoformat_basic (clock_2024 1) art_bbc"
  have xs: "state_get (articles ?S) [] = [art_blog, art_bbc]"
    by (simp add: state_of_articles_def state_get_def)
  have t1: "dict_get TRUSTED_SOURCES (source art_bbc) 5 = 10"
    and r1: "calculate_recency_score fromisoformat_basic 63839703600000000 (published_at art_bbc) = 10"
    and b1: "image_url art_bbc = Some (ustr ''https://img.example/a.jpg'')"
    and t0: "dict_get TRUSTED_SOURCES (source art_blog) 5 = 5"
    and r0: "calculate_recency_score fromisoformat_basic 63839703600000000 (published_at art_blog) = 2"
    and b0: "has_image_bonus (image_url art_blog) = 0"
    and mb: "?b \<in> set (prioritize_articles fromisoformat_basic clock_2024 ?S)"
    by code_simp+
  have m1: "ustr ''Some Blog'' \<notin> fst ` set TRUSTED_SOURCES"
    and m2: "(ustr ''CNN'', 8) \<in> set TRUSTED_SOURCES"
    by (simp_all add: TRUSTED_SOURCES_def ustr_def)
  have i1: "(1::nat) < length (state_get (articles ?S) [])"
    and i0: "(0::nat) < length (state_get (articles ?S) [])"
    by (simp_all add: xs)
  note A = priority_score_is_sum_of_components [of 1 ?S fromisoformat_basic clock_2024 ?b
      "ustr ''Some Blog''" "ustr ''CNN''" 8 "Some (ustr ''https://img.example/a.jpg'')"]
  note B = priority_score_is_sum_of_components [of 0 ?S fromisoformat_basic clock_2024 ?b
      "ustr ''Some Blog''" "ustr ''CNN''" 8 "Some (ustr ''https://img.example/a.jpg'')"]
  from A i1 have c1: "priority_score (score_loop fromisoformat_basic clock_2024 0 [art_blog, art_bbc] ! 1) = 10 + 10 + 2"
    using t1 r1 b1 by (simp add: xs Let_def ustr_def clock_2024_def)
  from B i0 have c0: "priority_score (score_loop fromisoformat_basic clock_2024 0 [art_blog, art_bbc] ! 0) = 5 + 2 + 0"
    using t0 r0 b0 by (simp add: xs Let_def clock_2024_def)
  from A mb have "\<exists>j. priority_score ?b = dict_get TRUSTED_SOURCES (source ?b) 5
               + calculate_recency_score fromisoformat_basic (clock_2024 j) (published_at ?b)
               + has_image_bonus (image_url ?b)"
    by blast
  then have c2: "priority_score ?b = 10 + 10 + 2"
    using t1 r1 b1 A by (simp add: clock_2024_def score_article_fields ustr_def)
  from A m1 have c3: "dict_get TRUSTED_SOURCES (ustr ''Some Blog'') 5 = 5" by blast
  from A m2 have c4: "dict_get TRUSTED_SOURCES (ustr ''CNN'') 5 = 8" by blast
  from A have c5: "has_image_bonus (Some (ustr ''https://img.example/a.jpg'')) = 2"
    by (simp add: ustr_def)
  show ?thesis using i1 c1 c0 mb c2 c3 c4 c5 m1 m2 by blast
qed

text \<open>
  Claim C1. For every input sequence the ranker returns \<open>min 5 n\<close> articles, \<open>n\<close>
  the input length; the output is sorted by descending total score; for every score,
  the output articles with that score are a prefix of the scored input articles with
  that score, in fetch order (the tie-break is the fetch order); the output and some
  rest make up the scored input, and no article of the rest scores more than one of
  the output. The scored input has each article at its input position.
\<close>

theorem prioritize_top5_sorted_stable:
  "length (prioritize_articles fromisoformat clock state)
      = min 5 (length (state_get (articles state) []))
   \<and> sorted_wrt (\<lambda>a b. priority_score b \<le> priority_score a)
        (prioritize_articles fromisoformat clock state)
   \<and> (\<forall>c. prefix (filter (\<lambda>a. priority_score a = c) (prioritize_articles fromisoformat clock state))
                  (filter (\<lambda>a. priority_score a = c)
                     (score_loop fromisoformat clock 0 (state_get (articles state) []))))
   \<and> (\<exists>rest. mset (prioritize_articles fromisoformat clock state @ rest)
                = mset (score_loop fromisoformat clock 0 (state_get (articles state) []))
             \<and> (\<forall>a \<in> set (prioritize_articles fromisoformat clock state). \<forall>b \<in> set rest.
                   priority_score b \<le> priority_score a))
   \<and> length (score_loop fromisoformat clock 0 (state_get (articles state) []))
        = length (state_get (articles state) [])
   \<and> (\<forall>i < length (state_get (articles state) []).
         score_loop fromisoformat clock 0 (state_get (articles state) []) ! i
           = score_article fromisoformat (clock i) (state_get (articles state) [] ! i))"
proof -
  let ?xs = "state_get (articles state) []"
  let ?scored = "score_loop fromisoformat clock 0 ?xs"
  let ?sorted = "sorted_reverse priority_score ?scored"
  have out: "prioritize_articles fromisoformat clock state = take 5 ?sorted"
    by (simp add: prioritize_articles_def Let_def)
  have len: "length (take 5 ?sorted) = min 5 (length ?xs)"
    by (simp add: length_sorted_reverse length_score_loop min.commute)
  have srt: "sorted_wrt (\<lambda>a b. priority_score b \<le> priority_score a) ?sorted"
    by (rule sorted_sorted_reverse)
  then have srt5: "sorted_wrt (\<lambda>a b. priority_score b \<le> priority_score a) (take 5 ?sorted)"
    by (rule sorted_wrt_take)
  have stable: "prefix (filter (\<lambda>a. priority_score a = c) (take 5 ?sorted))
                  (filter (\<lambda>a. priority_score a = c) ?scored)" for c
  proof -
    have "prefix (filter (\<lambda>a. priority_score a = c) (take 5 ?sorted))
                 (filter (\<lambda>a. priority_score a = c) ?sorted)"
      by (rule filter_mono_prefix [OF take_is_prefix])
    then show ?thesis by (simp add: filter_sorted_reverse)
  qed
  have "mset (take 5 ?sorted @ drop 5 ?sorted) = mset ?scored"
    by (simp add: mset_sorted_reverse)
  moreover have "\<forall>a \<in> set (take 5 ?sorted). \<forall>b \<in> set (drop 5 ?sorted).
                   priority_score b \<le> priority_score a"
  proof -
    from srt have "sorted_wrt (\<lambda>a b. priority_score b \<le> priority_score a) (take 5 ?sorted @ drop 5 ?sorted)"
      by simp
    then show ?thesis unfolding sorted_wrt_append by blast
  qed
  ultimately have top: "\<exists>rest. mset (take 5 ?sorted @ rest) = mset ?scored
             \<and> (\<forall>a \<in> set (take 5 ?sorted). \<forall>b \<in> set rest. priority_score b \<le> priority_score a)"
    by blast
  have nth: "\<forall>i < length ?xs. ?scored ! i = score_article fromisoformat (clock i) (?xs ! i)"
    by (simp add: score_loop_nth)
  show ?thesis
    unfolding out using len srt5 stable top nth length_score_loop [of fromisoformat clock 0 ?xs]
    by blast
qed

text \<open>
  Seven articles with scores 7, 22, 18, 18, 18, 8, 19 in fetch order: five are
  returned, in the order a2, a7, a3, a4, a5, the three ties at 18 in fetch order.
\<close>

theorem prioritize_top5_sorted_stable_witness:
  "length (prioritize_articles fromisoformat_basic clock_2024 (state_of_articles seven_articles)) = 5
   \<and> map (\<lambda>a. (title a, priority_score a))
         (prioritize_articles fromisoformat_basic clock_2024 (state_of_articles seven_articles))
        = [(ustr ''a2'', 22), (ustr ''a7'', 19), (ustr ''a3'', 18), (ustr ''a4'', 18), (ustr ''a5'', 18)]
   \<and> prefix (filter (\<lambda>a. priority_score a = 18)
               (prioritize_articles fromisoformat_basic clock_2024 (state_of_articles seven_articles)))
            (filter (\<lambda>a. priority_score a = 18) (score_loop fromisoformat_basic clock_2024 0 seven_articles))"
proof -
  let ?S = "state_of_articles seven_articles"
  have xs: "state_get (articles ?S) [] = seven_articles"
    by (simp add: state_of_articles_def state_get_def)
  have n: "length seven_articles = 7"
    by (simp add: seven_articles_def)
  have e: "map (\<lambda>a. (title a, priority_score a)) (prioritize_articles fromisoformat_basic clock_2024 ?S)
        = [(ustr ''a2'', 22), (ustr ''a7'', 19), (ustr ''a3'', 18), (ustr ''a4'', 18), (ustr ''a5'', 18)]"
    by code_simp
  from prioritize_top5_sorted_stable [of fromisoformat_basic clock_2024 ?S]
  have "length (prioritize_articles fromisoformat_basic clock_2024 ?S) = 5"
    and "prefix (filter (\<lambda>a. priority_score a = 18) (prioritize_articles fromisoformat_basic clock_2024 ?S))
            (filter (\<lambda>a. priority_score a = 18) (score_loop fromisoformat_basic clock_2024 0 seven_articles))"
    by (simp_all add: xs n)
  with e show ?thesis by blast
qed

section \<open>Verification: rewriting\<close>

lemma delimiters_distinct:
  "lbrack \<noteq> rbrack" "lbrack \<noteq> lparen" "lbrack \<noteq> rparen" "rbrack \<noteq> lparen"
  "rbrack \<noteq> rparen" "lparen \<noteq> rparen"
  by (simp_all add: lbrack_def rbrack_def lparen_def rparen_def)

lemma match_link_not_lbrack: "c \<noteq> lbrack \<Longrightarrow> match_link (c # r) = None"
  by (simp add: match_link_def)

lemma takeWhile_until:
  "x \<notin> set xs \<Longrightarrow> takeWhile (\<lambda>y. y \<noteq> x) (xs @ x # ys) = xs"
  by (induction xs) auto

lemma match_link_link:
  assumes "text \<noteq> []" "rbrack \<notin> set text" "u \<noteq> []" "rparen \<notin> set u"
  shows "match_link (lbrack # text @ rbrack # lparen # u @ rparen # post)
           = Some (text, length text + length u + 4)"
  using assms by (simp add: match_link_def takeWhile_until Let_def)

lemma split_at_takeWhile:
  "xs = takeWhile P xs @ drop (length (takeWhile P xs)) xs"
  by (metis takeWhile_dropWhile_id dropWhile_eq_drop)

lemma match_link_SomeD:
  assumes "match_link s = Some (t, n)"
  shows "\<exists>u post. s = lbrack # t @ rbrack # lparen # u @ rparen # post
           \<and> t \<noteq> [] \<and> rbrack \<notin> set t \<and> u \<noteq> [] \<and> rparen \<notin> set u
           \<and> n = length t + length u + 4"
proof (cases s)
  case Nil
  with assms show ?thesis by (simp add: match_link_def)
next
  case (Cons c r)
  let ?t = "takeWhile (\<lambda>x. x \<noteq> rbrack) r"
  from assms Cons have c: "c = lbrack" and t: "?t \<noteq> []"
    by (auto simp: match_link_def Let_def split: if_splits)
  from assms Cons c t obtain r2 where r1: "drop (length ?t) r = rbrack # lparen # r2"
    by (auto simp: match_link_def Let_def split: if_splits list.splits)
  let ?u = "takeWhile (\<lambda>x. x \<noteq> rparen) r2"
  from assms Cons c t r1 have u: "?u \<noteq> []"
    by (auto simp: match_link_def Let_def split: if_splits)
  from assms Cons c t r1 u obtain d r4 where r3: "drop (length ?u) r2 = d # r4"
    and res: "t = ?t" "n = 1 + length ?t + 2 + length ?u + 1"
    by (auto simp: match_link_def Let_def split: if_splits list.splits)
  have "r2 = ?u @ drop (length ?u) r2" by (rule split_at_takeWhile)
  with r3 have r2: "r2 = ?u @ d # r4" by simp
  have "d = rparen"
  proof (rule ccontr)
    assume "d \<noteq> rparen"
    then have "takeWhile (\<lambda>x. x \<noteq> rparen) (?u @ d # r4) = ?u @ takeWhile (\<lambda>x. x \<noteq> rparen) (d # r4)"
      by (intro takeWhile_append2) (auto dest: set_takeWhileD)
    with \<open>d \<noteq> rparen\<close> have "length (takeWhile (\<lambda>x. x \<noteq> rparen) (?u @ d # r4)) > length ?u"
      by simp
    with r2 show False by simp
  qed
  have "r = ?t @ drop (length ?t) r" by (rule split_at_takeWhile)
  with r1 r2 \<open>d = rparen\<close> have "r = ?t @ rbrack # lparen # ?u @ rparen # r4" by simp
  moreover have "rbrack \<notin> set ?t" "rparen \<notin> set ?u" by (auto dest: set_takeWhileD)
  ultimately show ?thesis using Cons c t u res by auto
qed

lemma re_sub_links_no_lbrack: "lbrack \<notin> set s \<Longrightarrow> re_sub_links s = s"
  by (induction s) (auto simp: match_link_not_lbrack)

lemma re_sub_links_at_link:
  assumes "text \<noteq> []" "rbrack \<notin> set text" "u \<noteq> []" "rparen \<notin> set u"
  shows "re_sub_links (lbrack # text @ rbrack # lparen # u @ rparen # post)
           = text @ re_sub_links post"
proof -
  have "drop (length text + length u + 4 - 1) (text @ rbrack # lparen # u @ rparen # post) = post"
    by (simp add: drop_Cons')
  with match_link_link [OF assms, of post] show ?thesis by simp
qed

lemma re_sub_links_link:
  assumes "lbrack \<notin> set pre" "text \<noteq> []" "rbrack \<notin> set text" "u \<noteq> []" "rparen \<notin> set u"
  shows "re_sub_links (pre @ lbrack # text @ rbrack # lparen # u @ rparen # post)
           = pre @ text @ re_sub_links post"
  using assms(1)
proof (induction pre)
  case Nil
  show ?case using re_sub_links_at_link [OF assms(2-5)] by simp
next
  case (Cons c pre)
  then show ?case by (simp add: match_link_not_lbrack)
qed

lemma length_re_sub_links: "length (re_sub_links s) \<le> length s"
proof (induction s rule: re_sub_links.induct)
  case 1
  show ?case by simp
next
  case (2 c r)
  show ?case
  proof (cases "match_link (c # r)")
    case None
    with 2 show ?thesis by simp
  next
    case (Some p)
    obtain t n where p: "p = (t, n)" by (cases p)
    from Some p obtain u post where s: "c # r = lbrack # t @ rbrack # lparen # u @ rparen # post"
        and n: "n = length t + length u + 4"
      using match_link_SomeD by blast
    from 2(2) [OF Some p [symmetric]] have "length (re_sub_links (drop (n - 1) r)) \<le> length (drop (n - 1) r)" .
    moreover from s have "length r = length t + length u + 3 + length post" by simp
    ultimately show ?thesis using Some p n by simp
  qed
qed

lemma length_strip: "length (strip s) \<le> length s"
proof -
  have "length (dropWhile is_space (rev (dropWhile is_space s))) \<le> length (rev (dropWhile is_space s))"
    by (rule length_dropWhile_le)
  also have "\<dots> \<le> length s" by (simp add: length_dropWhile_le)
  finally show ?thesis by (simp add: strip_def)
qed

lemma strip_id:
  assumes "s \<noteq> []" "\<not> is_space (hd s)" "\<not> is_space (last s)"
  shows "strip s = s"
proof -
  from assms have a: "dropWhile is_space s = s" by (cases s) auto
  from assms have "rev s \<noteq> []" "\<not> is_space (hd (rev s))" by (simp_all add: hd_rev)
  then have "dropWhile is_space (rev s) = rev s" by (cases "rev s") auto
  with a show ?thesis by (simp add: strip_def)
qed

lemma rewrite_loop_posts:
  "rewrite_loop llm w as = (Inr ts, w') \<Longrightarrow>
     length ts = length as \<and> (\<forall>t \<in> set ts. \<exists>out. t = rewrite_text out)"
proof (induction as arbitrary: w ts)
  case Nil
  then show ?case by simp
next
  case (Cons a as)
  from Cons.prems obtain out w1 rest where
      "llm w system_message (rewrite_prompt a) = (Inr out, w1)"
      "rewrite_loop llm w1 as = (Inr rest, w')" "ts = rewrite_text out # rest"
    by (auto split: prod.splits sum.splits)
  with Cons.IH [of w1 rest] show ?case by auto
qed

lemma length_rewrite_text: "length (rewrite_text out) = min 250 (length (re_sub_links (strip out)))"
  by (simp add: rewrite_text_def min.commute)

lemma length_rewrite_text_le: "length (rewrite_text out) \<le> length out"
proof -
  have "length (rewrite_text out) \<le> length (re_sub_links (strip out))"
    by (simp add: rewrite_text_def)
  also have "\<dots> \<le> length (strip out)" by (rule length_re_sub_links)
  also have "\<dots> \<le> length out" by (rule length_strip)
  finally show ?thesis .
qed

text \<open>
  The scan in terms of the specification's links: a link is matched exactly where one
  starts, and the match is unique.
\<close>

lemma match_link_spec_link:
  "spec_link s t u post \<Longrightarrow> match_link s = Some (t, length t + length u + 4)"
  by (simp add: spec_link_def match_link_link)

lemma match_link_Some_spec_link:
  "match_link s = Some (t, n) \<Longrightarrow> \<exists>u post. spec_link s t u post \<and> n = length t + length u + 4"
  using match_link_SomeD [of s t n] by (auto simp: spec_link_def)

lemma match_link_None_iff: "match_link s = None \<longleftrightarrow> (\<forall>t u post. \<not> spec_link s t u post)"
proof
  assume "match_link s = None"
  then show "\<forall>t u post. \<not> spec_link s t u post"
    by (auto dest: match_link_spec_link)
next
  assume a: "\<forall>t u post. \<not> spec_link s t u post"
  show "match_link s = None"
  proof (cases "match_link s")
    case None
    then show ?thesis .
  next
    case (Some p)
    obtain t n where "p = (t, n)" by (cases p)
    with Some match_link_Some_spec_link [of s t n] a show ?thesis by blast
  qed
qed

lemma re_sub_links_spec_link:
  assumes "spec_link s t u post"
  shows "re_sub_links s = t @ re_sub_links post"
proof -
  from assms have s: "s = lbrack # t @ rbrack # lparen # u @ rparen # post"
    and p: "t \<noteq> []" "rbrack \<notin> set t" "u \<noteq> []" "rparen \<notin> set u"
    by (simp_all add: spec_link_def)
  show ?thesis unfolding s by (rule re_sub_links_at_link [OF p])
qed

lemma re_sub_links_no_link:
  "\<forall>t u post. \<not> spec_link (c # r) t u post \<Longrightarrow> re_sub_links (c # r) = c # re_sub_links r"
  by (simp add: match_link_None_iff [symmetric])

lemma spec_link_unique:
  assumes "spec_link s t u post" "spec_link s t' u' post'"
  shows "t' = t \<and> u' = u \<and> post' = post"
proof -
  from assms have "Some (t, length t + length u + 4) = Some (t', length t' + length u' + 4)"
    by (metis match_link_spec_link)
  then have t: "t' = t" and "length u' = length u" by auto
  with assms show ?thesis by (auto simp: spec_link_def)
qed

lemma contains_Cons:
  "contains_rbrack_lparen (c # xs)
     \<longleftrightarrow> (c = rbrack \<and> xs \<noteq> [] \<and> hd xs = lparen) \<or> contains_rbrack_lparen xs"
  by (cases xs) auto

lemma contains_append_no_rbrack:
  "rbrack \<notin> set t \<Longrightarrow> contains_rbrack_lparen (t @ r) = contains_rbrack_lparen r"
  by (induction t) (auto simp: contains_Cons)

lemma contains_take: "contains_rbrack_lparen (take n xs) \<Longrightarrow> contains_rbrack_lparen xs"
proof (induction xs arbitrary: n)
  case Nil
  then show ?case by simp
next
  case (Cons c xs)
  show ?case
  proof (cases n)
    case 0
    with Cons.prems show ?thesis by simp
  next
    case (Suc m)
    with Cons.prems have "(c = rbrack \<and> take m xs \<noteq> [] \<and> hd (take m xs) = lparen)
                            \<or> contains_rbrack_lparen (take m xs)"
      by (simp add: contains_Cons)
    then show ?thesis
    proof
      assume a: "c = rbrack \<and> take m xs \<noteq> [] \<and> hd (take m xs) = lparen"
      then have "xs \<noteq> []" "hd xs = lparen" by (cases m; cases xs; simp)+
      with a show ?thesis by (simp add: contains_Cons)
    next
      assume "contains_rbrack_lparen (take m xs)"
      then have "contains_rbrack_lparen xs" by (rule Cons.IH)
      then show ?thesis by (simp add: contains_Cons)
    qed
  qed
qed

lemma contains_set: "contains_rbrack_lparen xs \<Longrightarrow> rbrack \<in> set xs"
  by (induction xs rule: contains_rbrack_lparen.induct) auto


lemma re_sub_links_starts_lparen:
  "(re_sub_links r \<noteq> [] \<and> hd (re_sub_links r) = lparen)
     \<longleftrightarrow> (\<exists>r'. r = lparen # r') \<or> (\<exists>t u post. spec_link r t u post \<and> hd t = lparen)"
proof (cases r)
  case Nil
  then show ?thesis by (simp add: spec_link_def)
next
  case (Cons c r')
  show ?thesis
  proof (cases "match_link r")
    case None
    then have nl: "\<forall>t u post. \<not> spec_link r t u post" by (simp add: match_link_None_iff)
    from nl Cons have "\<forall>t u post. \<not> spec_link (c # r') t u post" by simp
    then have "re_sub_links (c # r') = c # re_sub_links r'" by (rule re_sub_links_no_link)
    with nl Cons show ?thesis by auto
  next
    case (Some p)
    obtain t n where p: "p = (t, n)" by (cases p)
    with Some obtain u post where l: "spec_link r t u post"
      using match_link_Some_spec_link by blast
    then have out: "re_sub_links r = t @ re_sub_links post" by (rule re_sub_links_spec_link)
    from l have t: "t \<noteq> []" and c: "c = lbrack" using Cons by (simp_all add: spec_link_def)
    have "(\<exists>t u post. spec_link r t u post \<and> hd t = lparen) \<longleftrightarrow> hd t = lparen"
      using l spec_link_unique by blast
    moreover have "\<not> (\<exists>r'. r = lparen # r')" using Cons c delimiters_distinct by auto
    ultimately show ?thesis using out t by simp
  qed
qed

lemma contains_imp_leaves:
  "contains_rbrack_lparen (re_sub_links s) \<Longrightarrow> spec_leaves_rbrack_lparen s"
proof (induction s rule: re_sub_links.induct)
  case 1
  then show ?case by simp
next
  case (2 c r)
  show ?case
  proof (cases "match_link (c # r)")
    case None
    then have nl: "\<forall>t u post. \<not> spec_link (c # r) t u post" by (simp add: match_link_None_iff)
    then have out: "re_sub_links (c # r) = c # re_sub_links r" by (rule re_sub_links_no_link)
    with "2.prems" have "(c = rbrack \<and> re_sub_links r \<noteq> [] \<and> hd (re_sub_links r) = lparen)
                          \<or> contains_rbrack_lparen (re_sub_links r)"
      by (simp add: contains_Cons)
    then show ?thesis
    proof
      assume a: "c = rbrack \<and> re_sub_links r \<noteq> [] \<and> hd (re_sub_links r) = lparen"
      then have "(\<exists>r'. r = lparen # r') \<or> (\<exists>t u post. spec_link r t u post \<and> hd t = lparen)"
        by (simp add: re_sub_links_starts_lparen)
      with a show ?thesis
        by (auto intro: copied_then_lparen copied_then_link)
    next
      assume "contains_rbrack_lparen (re_sub_links r)"
      then have "spec_leaves_rbrack_lparen r" by (rule "2.IH"(1) [OF None])
      with nl show ?thesis by (rule after_copy)
    qed
  next
    case (Some p)
    obtain t n where p: "p = (t, n)" by (cases p)
    with Some obtain u post where l: "spec_link (c # r) t u post" and n: "n = length t + length u + 4"
      using match_link_Some_spec_link by blast
    then have d: "drop (n - 1) r = post" by (simp add: spec_link_def drop_Cons')
    from l have "re_sub_links (c # r) = t @ re_sub_links post" by (rule re_sub_links_spec_link)
    moreover from l have "rbrack \<notin> set t" by (simp add: spec_link_def)
    ultimately have "contains_rbrack_lparen (re_sub_links post)"
      using "2.prems" by (simp add: contains_append_no_rbrack)
    with "2.IH"(2) [OF Some p [symmetric]] d have "spec_leaves_rbrack_lparen post" by simp
    with l show ?thesis by (rule after_link)
  qed
qed

lemma leaves_imp_contains:
  "spec_leaves_rbrack_lparen s \<Longrightarrow> contains_rbrack_lparen (re_sub_links s)"
proof (induction s rule: spec_leaves_rbrack_lparen.induct)
  case (copied_then_lparen r)
  have "match_link (rbrack # lparen # r) = None" "match_link (lparen # r) = None"
    using delimiters_distinct by (simp_all add: match_link_not_lbrack)
  then show ?case by simp
next
  case (copied_then_link r t u post)
  from copied_then_link(1) have "re_sub_links r = t @ re_sub_links post"
    by (rule re_sub_links_spec_link)
  moreover from copied_then_link(1) have "t \<noteq> []" by (simp add: spec_link_def)
  moreover have "match_link (rbrack # r) = None"
    using delimiters_distinct by (simp add: match_link_not_lbrack)
  ultimately show ?case using copied_then_link(2) by (simp add: contains_Cons)
next
  case (after_copy c r)
  from after_copy.hyps(1) have "re_sub_links (c # r) = c # re_sub_links r"
    by (rule re_sub_links_no_link)
  with after_copy.IH show ?case by (simp add: contains_Cons)
next
  case (after_link s t u post)
  from after_link.hyps(1) have "re_sub_links s = t @ re_sub_links post"
    by (rule re_sub_links_spec_link)
  moreover from after_link.hyps(1) have "rbrack \<notin> set t" by (simp add: spec_link_def)
  ultimately show ?case using after_link.IH by (simp add: contains_append_no_rbrack)
qed

lemma contains_iff_leaves:
  "contains_rbrack_lparen (re_sub_links s) \<longleftrightarrow> spec_leaves_rbrack_lparen s"
  using contains_imp_leaves leaves_imp_contains by blast

lemma strip_characterisation:
  "\<exists>ws1 ws2. s = ws1 @ strip s @ ws2 \<and> (\<forall>c \<in> set ws1. is_space c) \<and> (\<forall>c \<in> set ws2. is_space c)
     \<and> (strip s \<noteq> [] \<longrightarrow> \<not> is_space (hd (strip s)) \<and> \<not> is_space (last (strip s)))"
proof -
  let ?m = "dropWhile is_space s"
  let ?ws1 = "takeWhile is_space s"
  let ?ws2 = "rev (takeWhile is_space (rev ?m))"
  have st: "strip s = rev (dropWhile is_space (rev ?m))" by (simp add: strip_def)
  have "rev (takeWhile is_space (rev ?m) @ dropWhile is_space (rev ?m)) = rev (rev ?m)"
    by (simp only: takeWhile_dropWhile_id)
  then have "rev (dropWhile is_space (rev ?m)) @ rev (takeWhile is_space (rev ?m)) = ?m"
    by (simp only: rev_append rev_rev_ident)
  then have m: "?m = strip s @ ?ws2" unfolding st by (rule sym)
  have "s = ?ws1 @ ?m" by simp
  with m have s: "s = ?ws1 @ strip s @ ?ws2" by simp
  have w1: "\<forall>c \<in> set ?ws1. is_space c" by (auto dest: set_takeWhileD)
  have w2: "\<forall>c \<in> set ?ws2. is_space c" by (auto dest: set_takeWhileD)
  have e: "\<not> is_space (hd (strip s)) \<and> \<not> is_space (last (strip s))" if ne: "strip s \<noteq> []"
  proof -
    from ne st have d: "dropWhile is_space (rev ?m) \<noteq> []" by simp
    then have "\<not> is_space (hd (dropWhile is_space (rev ?m)))" by (rule hd_dropWhile)
    with d have l: "\<not> is_space (last (strip s))" by (simp add: st last_rev)
    from ne m have "hd ?m = hd (strip s)" "?m \<noteq> []" by (metis hd_append2, metis append_is_Nil_conv)
    with hd_dropWhile [of is_space s] have "\<not> is_space (hd (strip s))" by simp
    with l show ?thesis by simp
  qed
  from s w1 w2 e show ?thesis by blast
qed

text \<open>
  Claim C4, as stated, fails twice. A model output of 251 characters, 200 letters
  followed by the link \<open>[b](ccc...c)\<close> with a 46-character target, is longer than
  250, and the returned post has 201 characters, not 250: the link is replaced before
  the truncation. And the output \<open>[[x](y)](z)\<close> contains \<open>[text](url)\<close>, and the
  returned post \<open>[x](z)\<close> contains \<open>](\<close>, and is a link itself: the single scan
  replaces the match \<open>[[x](y)\<close> by its group \<open>[x\<close> and does not look at its own output
  again.
\<close>

theorem rewrite_text_counterexample:
  "length (replicate 200 (of_char CHR ''a'') @ ustr ''[b]('' @ replicate 46 (of_char CHR ''c'') @ ustr '')'') = 251
   \<and> length (rewrite_text (replicate 200 (of_char CHR ''a'') @ ustr ''[b]('' @ replicate 46 (of_char CHR ''c'') @ ustr '')'')) = 201
   \<and> rewrite_text (ustr ''[[x](y)](z)'') = ustr ''[x](z)''"
proof -
  let ?pre = "replicate 200 (of_char CHR ''a'') :: pystr"
  let ?u = "replicate 46 (of_char CHR ''c'') :: pystr"
  let ?s = "?pre @ ustr ''[b]('' @ ?u @ ustr '')''"
  have shape: "?s = ?pre @ lbrack # [of_char CHR ''b''] @ rbrack # lparen # ?u @ rparen # []"
    by (simp add: ustr_def lbrack_def rbrack_def lparen_def rparen_def)
  have "?s \<noteq> []" "\<not> is_space (hd ?s)" "\<not> is_space (last ?s)"
    by (simp_all add: ustr_def is_space_def hd_append)
  then have "strip ?s = ?s" by (rule strip_id)
  moreover have "re_sub_links ?s = ?pre @ [of_char CHR ''b''] @ re_sub_links []"
    unfolding shape
    by (rule re_sub_links_link) (simp_all add: lbrack_def rbrack_def rparen_def)
  ultimately have "length (rewrite_text ?s) = 201"
    by (simp add: rewrite_text_def)
  moreover have "length ?s = 251" by (simp add: ustr_def)
  moreover have "rewrite_text (ustr ''[[x](y)](z)'') = ustr ''[x](z)''"
    by (simp add: rewrite_text_def strip_def is_space_def ustr_def match_link_def
          lbrack_def rbrack_def lparen_def rparen_def)
  ultimately show ?thesis by blast
qed

text \<open>
  Claim C4, amended. The rewrite stage trims the whitespace around the model output:
  the output is whitespace, the trimmed text, whitespace, and the trimmed text neither
  starts nor ends with whitespace. It then scans the trimmed text once from the left:
  where a link \<open>[text](url)\<close> starts, with a non-empty \<open>text\<close> without \<open>]\<close> and a
  non-empty \<open>url\<close> without \<open>)\<close>, it writes \<open>text\<close> and goes on after the link;
  where none starts it copies the character and goes on after it; what it has written
  is not scanned again. The post is the first 250 characters of what the scan wrote:
  it has \<open>min 250 n\<close> characters, \<open>n\<close> the length of the scan's output, never more
  than 250, never more than the model output had, and exactly 250 when the scan's
  output has at least 250. When the trimmed output is \<open>pre[text](url)post\<close> with no
  \<open>[\<close> in \<open>pre\<close>, the post is the first 250 characters of \<open>pre\<close>, \<open>text\<close> and the
  scan of \<open>post\<close>; if moreover \<open>pre\<close> has no \<open>]\<close> and \<open>post\<close> has neither \<open>[\<close> nor
  \<open>]\<close>, it is the first 250 characters of \<open>pre text post\<close> and contains no \<open>]\<close>,
  hence no \<open>](\<close>. A trimmed output without \<open>[\<close> is only truncated. In general the
  scan's output contains \<open>](\<close> exactly when the scan copies a \<open>]\<close> that is followed
  by a \<open>(\<close> or by a link whose text starts with \<open>(\<close>; a post contains \<open>](\<close> only
  then, and exactly then when nothing is cut off. Every post that the stage's loop
  returns is such a post, one per article.
\<close>

theorem rewrite_text_truncates_and_strips_links:
  "length (rewrite_text out) = min 250 (length (re_sub_links (strip out)))
   \<and> prefix (rewrite_text out) (re_sub_links (strip out))
   \<and> length (rewrite_text out) \<le> 250
   \<and> length (rewrite_text out) \<le> length out
   \<and> (250 \<le> length (re_sub_links (strip out)) \<longrightarrow> length (rewrite_text out) = 250)
   \<and> (\<exists>ws1 ws2. out = ws1 @ strip out @ ws2
          \<and> (\<forall>c \<in> set ws1. is_space c) \<and> (\<forall>c \<in> set ws2. is_space c)
          \<and> (strip out \<noteq> [] \<longrightarrow> \<not> is_space (hd (strip out)) \<and> \<not> is_space (last (strip out))))
   \<and> re_sub_links [] = []
   \<and> (spec_link s1 t1 u1 p1 \<longrightarrow> re_sub_links s1 = t1 @ re_sub_links p1)
   \<and> ((\<forall>t u p. \<not> spec_link (c # r) t u p) \<longrightarrow> re_sub_links (c # r) = c # re_sub_links r)
   \<and> (strip out' = pre @ lbrack # anchor @ rbrack # lparen # u @ rparen # post
        \<and> lbrack \<notin> set pre \<and> anchor \<noteq> [] \<and> rbrack \<notin> set anchor \<and> u \<noteq> [] \<and> rparen \<notin> set u
        \<longrightarrow> rewrite_text out' = take 250 (pre @ anchor @ re_sub_links post)
            \<and> (rbrack \<notin> set pre \<and> lbrack \<notin> set post \<and> rbrack \<notin> set post
                 \<longrightarrow> rewrite_text out' = take 250 (pre @ anchor @ post)
                     \<and> rbrack \<notin> set (rewrite_text out')))
   \<and> (lbrack \<notin> set (strip out'') \<longrightarrow> rewrite_text out'' = take 250 (strip out''))
   \<and> (contains_rbrack_lparen (re_sub_links s2) \<longleftrightarrow> spec_leaves_rbrack_lparen s2)
   \<and> (\<not> spec_leaves_rbrack_lparen (strip out) \<longrightarrow> \<not> contains_rbrack_lparen (rewrite_text out))
   \<and> (length (re_sub_links (strip out)) \<le> 250 \<longrightarrow>
         (contains_rbrack_lparen (rewrite_text out) \<longleftrightarrow> spec_leaves_rbrack_lparen (strip out)))
   \<and> (rewrite_loop llm w arts = (Inr ts, w') \<longrightarrow>
         length ts = length arts \<and> (\<forall>t \<in> set ts. (\<exists>c. t = rewrite_text c) \<and> length t \<le> 250))"
proof -
  have c1: "length (rewrite_text out) = min 250 (length (re_sub_links (strip out)))"
    by (rule length_rewrite_text)
  have c2: "prefix (rewrite_text out) (re_sub_links (strip out))"
    by (simp add: rewrite_text_def take_is_prefix)
  have c3: "length (rewrite_text out) \<le> 250" by (simp add: length_rewrite_text)
  have c4: "length (rewrite_text out) \<le> length out" by (rule length_rewrite_text_le)
  have c5: "250 \<le> length (re_sub_links (strip out)) \<longrightarrow> length (rewrite_text out) = 250"
    by (simp add: length_rewrite_text)
  have c6: "\<exists>ws1 ws2. out = ws1 @ strip out @ ws2
          \<and> (\<forall>c \<in> set ws1. is_space c) \<and> (\<forall>c \<in> set ws2. is_space c)
          \<and> (strip out \<noteq> [] \<longrightarrow> \<not> is_space (hd (strip out)) \<and> \<not> is_space (last (strip out)))"
    by (rule strip_characterisation)
  have c7: "re_sub_links [] = []" by simp
  have c8: "spec_link s1 t1 u1 p1 \<longrightarrow> re_sub_links s1 = t1 @ re_sub_links p1"
    using re_sub_links_spec_link by blast
  have c9: "(\<forall>t u p. \<not> spec_link (c # r) t u p) \<longrightarrow> re_sub_links (c # r) = c # re_sub_links r"
    using re_sub_links_no_link by blast
  have c10: "strip out' = pre @ lbrack # anchor @ rbrack # lparen # u @ rparen # post
        \<and> lbrack \<notin> set pre \<and> anchor \<noteq> [] \<and> rbrack \<notin> set anchor \<and> u \<noteq> [] \<and> rparen \<notin> set u
        \<longrightarrow> rewrite_text out' = take 250 (pre @ anchor @ re_sub_links post)
            \<and> (rbrack \<notin> set pre \<and> lbrack \<notin> set post \<and> rbrack \<notin> set post
                 \<longrightarrow> rewrite_text out' = take 250 (pre @ anchor @ post)
                     \<and> rbrack \<notin> set (rewrite_text out'))"
  proof (intro conjI impI)
    assume a: "strip out' = pre @ lbrack # anchor @ rbrack # lparen # u @ rparen # post
        \<and> lbrack \<notin> set pre \<and> anchor \<noteq> [] \<and> rbrack \<notin> set anchor \<and> u \<noteq> [] \<and> rparen \<notin> set u"
    then show l: "rewrite_text out' = take 250 (pre @ anchor @ re_sub_links post)"
      by (simp add: rewrite_text_def re_sub_links_link)
    assume b: "rbrack \<notin> set pre \<and> lbrack \<notin> set post \<and> rbrack \<notin> set post"
    with l show r: "rewrite_text out' = take 250 (pre @ anchor @ post)"
      by (simp add: re_sub_links_no_lbrack)
    from a b have "rbrack \<notin> set (pre @ anchor @ post)" by simp
    then show "rbrack \<notin> set (rewrite_text out')"
      unfolding r by (meson in_set_takeD)
  qed
  have c11: "lbrack \<notin> set (strip out'') \<longrightarrow> rewrite_text out'' = take 250 (strip out'')"
    by (simp add: rewrite_text_def re_sub_links_no_lbrack)
  have c12: "contains_rbrack_lparen (re_sub_links s2) \<longleftrightarrow> spec_leaves_rbrack_lparen s2"
    by (rule contains_iff_leaves)
  have c13: "\<not> spec_leaves_rbrack_lparen (strip out) \<longrightarrow> \<not> contains_rbrack_lparen (rewrite_text out)"
    unfolding rewrite_text_def using contains_take contains_iff_leaves by blast
  have c14: "length (re_sub_links (strip out)) \<le> 250 \<longrightarrow>
         (contains_rbrack_lparen (rewrite_text out) \<longleftrightarrow> spec_leaves_rbrack_lparen (strip out))"
    by (simp add: rewrite_text_def contains_iff_leaves)
  have c15: "rewrite_loop llm w arts = (Inr ts, w') \<longrightarrow>
         length ts = length arts \<and> (\<forall>t \<in> set ts. (\<exists>c. t = rewrite_text c) \<and> length t \<le> 250)"
  proof
    assume a: "rewrite_loop llm w arts = (Inr ts, w')"
    then have "length ts = length arts" by (simp add: rewrite_loop_posts)
    moreover from a have "\<forall>t \<in> set ts. \<exists>c. t = rewrite_text c" by (simp add: rewrite_loop_posts)
    then have "\<forall>t \<in> set ts. (\<exists>c. t = rewrite_text c) \<and> length t \<le> 250"
      by (auto simp: length_rewrite_text)
    ultimately show "length ts = length arts \<and> (\<forall>t \<in> set ts. (\<exists>c. t = rewrite_text c) \<and> length t \<le> 250)"
      by blast
  qed
  from c1 c2 c3 c4 c5 c6 c7 c8 c9 c10 c11 c12 c13 c14 c15 show ?thesis by blast
qed

text \<open>
  The amended claim C4 at concrete inputs: 260 letters give a post of 250; the output
  \<open>Read [this](http://a.b) now\<close>, with spaces around it, gives \<open>Read this now\<close>,
  without \<open>](\<close>; in \<open>[a](b) and [c](d)\<close> both links are replaced; in
  \<open>Breaking [update]: markets fall\<close> no link starts at the \<open>[\<close>, which is copied, and
  the text is returned as it is; in \<open>[[x](y)](z)\<close> the link \<open>[[x](y)\<close> is replaced by
  \<open>[x\<close> and the \<open>](\<close> after it is copied, so the post contains \<open>](\<close>.
\<close>

theorem rewrite_text_truncates_and_strips_links_witness:
  "250 \<le> length (re_sub_links (strip (replicate 260 (of_char CHR ''a''))))
   \<and> length (rewrite_text (replicate 260 (of_char CHR ''a''))) = 250
   \<and> rewrite_text (ustr ''  Read [this](http://a.b) now '') = ustr ''Read this now''
   \<and> rbrack \<notin> set (rewrite_text (ustr ''  Read [this](http://a.b) now ''))
   \<and> \<not> spec_leaves_rbrack_lparen (strip (ustr ''  Read [this](http://a.b) now ''))
   \<and> \<not> contains_rbrack_lparen (rewrite_text (ustr ''  Read [this](http://a.b) now ''))
   \<and> rewrite_text (ustr '' plain text '') = ustr ''plain text''
   \<and> spec_link (ustr ''[a](b) and [c](d)'') (ustr ''a'') (ustr ''b'') (ustr '' and [c](d)'')
   \<and> re_sub_links (ustr ''[a](b) and [c](d)'') = ustr ''a'' @ re_sub_links (ustr '' and [c](d)'')
   \<and> re_sub_links (ustr ''[a](b) and [c](d)'') = ustr ''a and c''
   \<and> re_sub_links (lbrack # ustr ''update]: markets fall'')
       = lbrack # re_sub_links (ustr ''update]: markets fall'')
   \<and> rewrite_text (ustr ''Breaking [update]: markets fall'') = ustr ''Breaking [update]: markets fall''
   \<and> spec_link (ustr ''[[x](y)](z)'') (ustr ''[x'') (ustr ''y'') (ustr ''](z)'')
   \<and> spec_leaves_rbrack_lparen (ustr ''[[x](y)](z)'')
   \<and> contains_rbrack_lparen (re_sub_links (ustr ''[[x](y)](z)''))
   \<and> length (re_sub_links (strip (ustr ''[[x](y)](z)''))) \<le> 250
   \<and> spec_leaves_rbrack_lparen (strip (ustr ''[[x](y)](z)''))
   \<and> contains_rbrack_lparen (rewrite_text (ustr ''[[x](y)](z)''))
   \<and> rewrite_loop (llm_fixed (ustr ''  Read [this](http://a.b) now '')) () [art_bbc]
        = (Inr [ustr ''Read this now''], ())
   \<and> length [ustr ''Read this now''] = length [art_bbc]"
proof -
  let ?long = "replicate 260 (of_char CHR ''a'') :: pystr"
  let ?c = "ustr ''  Read [this](http://a.b) now ''"
  let ?p = "ustr '' plain text ''"
  let ?two = "ustr ''[a](b) and [c](d)''"
  let ?upd = "ustr ''update]: markets fall''"
  let ?nest = "ustr ''[[x](y)](z)''"
  note ev = rewrite_text_def strip_def is_space_def ustr_def match_link_def
    lbrack_def rbrack_def lparen_def rparen_def
  have "?long \<noteq> []" "\<not> is_space (hd ?long)" "\<not> is_space (last ?long)"
    by (simp_all add: is_space_def)
  then have "strip ?long = ?long" by (rule strip_id)
  moreover have "lbrack \<notin> set ?long" by (simp add: lbrack_def)
  ultimately have h1: "250 \<le> length (re_sub_links (strip ?long))"
    by (simp add: re_sub_links_no_lbrack)
  have h2: "strip ?c = ustr ''Read '' @ lbrack # ustr ''this'' @ rbrack # lparen # ustr ''http://a.b''
                         @ rparen # ustr '' now''"
    by (simp add: strip_def is_space_def ustr_def lbrack_def rbrack_def lparen_def rparen_def)
  have h3: "lbrack \<notin> set (ustr ''Read '') \<and> ustr ''this'' \<noteq> [] \<and> rbrack \<notin> set (ustr ''this'')
              \<and> ustr ''http://a.b'' \<noteq> [] \<and> rparen \<notin> set (ustr ''http://a.b'')"
    and h4: "rbrack \<notin> set (ustr ''Read '') \<and> lbrack \<notin> set (ustr '' now'') \<and> rbrack \<notin> set (ustr '' now'')"
    by (simp_all add: ustr_def lbrack_def rbrack_def rparen_def)
  have h5: "strip ?p = ustr ''plain text''"
    by (simp add: strip_def is_space_def ustr_def)
  have h6: "lbrack \<notin> set (ustr ''plain text'')"
    by (simp add: ustr_def lbrack_def)
  have h7: "spec_link ?two (ustr ''a'') (ustr ''b'') (ustr '' and [c](d)'')"
    by (simp add: spec_link_def ustr_def lbrack_def rbrack_def lparen_def rparen_def)
  have "match_link (lbrack # ?upd) = None" by (simp add: ev)
  then have h8: "\<forall>t u p. \<not> spec_link (lbrack # ?upd) t u p"
    by (simp add: match_link_None_iff)
  have e1: "re_sub_links ?two = ustr ''a and c''" by (simp add: ev)
  have e2: "rewrite_text (ustr ''Breaking [update]: markets fall'') = ustr ''Breaking [update]: markets fall''"
    by (simp add: ev)
  have "ustr ''](z)'' = rbrack # lparen # ustr ''z)''"
    by (simp add: ustr_def rbrack_def lparen_def)
  then have l0: "spec_leaves_rbrack_lparen (ustr ''](z)'')"
    by (simp only: copied_then_lparen)
  have l1: "spec_link ?nest (ustr ''[x'') (ustr ''y'') (ustr ''](z)'')"
    by (simp add: spec_link_def ustr_def lbrack_def rbrack_def lparen_def rparen_def)
  have l2: "spec_leaves_rbrack_lparen ?nest" by (rule after_link [OF l1 l0])
  have "strip ?nest = ?nest" by (simp add: strip_def is_space_def ustr_def)
  with l2 have l3: "spec_leaves_rbrack_lparen (strip ?nest)" by simp
  have e4: "\<not> contains_rbrack_lparen (re_sub_links (strip ?c))" by (simp add: ev)
  have e6: "length (re_sub_links (strip ?nest)) \<le> 250" by (simp add: ev)
  note T1 = rewrite_text_truncates_and_strips_links [where out = ?long and out' = ?c
      and pre = "ustr ''Read ''" and anchor = "ustr ''this''" and u = "ustr ''http://a.b''"
      and post = "ustr '' now''" and out'' = ?p and ?s1.0 = ?two and ?t1.0 = "ustr ''a''"
      and ?u1.0 = "ustr ''b''" and ?p1.0 = "ustr '' and [c](d)''" and c = lbrack and r = ?upd
      and ?s2.0 = ?nest and llm = "llm_fixed ?c" and w = "()" and arts = "[art_bbc]"
      and ts = "[ustr ''Read this now'']" and w' = "()"]
  note T2 = rewrite_text_truncates_and_strips_links [where out = ?c and out' = ?c
      and pre = "ustr ''Read ''" and anchor = "ustr ''this''" and u = "ustr ''http://a.b''"
      and post = "ustr '' now''" and out'' = ?p and ?s1.0 = ?two and ?t1.0 = "ustr ''a''"
      and ?u1.0 = "ustr ''b''" and ?p1.0 = "ustr '' and [c](d)''" and c = lbrack and r = ?upd
      and ?s2.0 = "strip ?c" and llm = "llm_fixed ?c" and w = "()" and arts = "[art_bbc]"
      and ts = "[ustr ''Read this now'']" and w' = "()"]
  note T3 = rewrite_text_truncates_and_strips_links [where out = ?nest and out' = ?c
      and pre = "ustr ''Read ''" and anchor = "ustr ''this''" and u = "ustr ''http://a.b''"
      and post = "ustr '' now''" and out'' = ?p and ?s1.0 = ?two and ?t1.0 = "ustr ''a''"
      and ?u1.0 = "ustr ''b''" and ?p1.0 = "ustr '' and [c](d)''" and c = lbrack and r = ?upd
      and ?s2.0 = ?nest and llm = "llm_fixed ?c" and w = "()" and arts = "[art_bbc]"
      and ts = "[ustr ''Read this now'']" and w' = "()"]
  note R1 = T1 [THEN conjunct2, THEN conjunct2, THEN conjunct2, THEN conjunct2]
  note R2 = R1 [THEN conjunct2, THEN conjunct2, THEN conjunct2]
  note R3 = R2 [THEN conjunct2, THEN conjunct2]
  note R4 = R3 [THEN conjunct2, THEN conjunct2]
  note S4 = T2 [THEN conjunct2, THEN conjunct2, THEN conjunct2, THEN conjunct2, THEN conjunct2,
      THEN conjunct2, THEN conjunct2, THEN conjunct2, THEN conjunct2, THEN conjunct2, THEN conjunct2]
  note U4 = T3 [THEN conjunct2, THEN conjunct2, THEN conjunct2, THEN conjunct2, THEN conjunct2,
      THEN conjunct2, THEN conjunct2, THEN conjunct2, THEN conjunct2, THEN conjunct2, THEN conjunct2]
  note c1 = R1 [THEN conjunct1, THEN mp, OF h1]
  note k1 = R3 [THEN conjunct1, THEN mp, OF conjI [OF h2 h3]]
  note k2 = k1 [THEN conjunct2, THEN mp, OF h4]
  note c3 = k2 [THEN conjunct2]
  from k2 [THEN conjunct1] have c2: "rewrite_text ?c = ustr ''Read this now''"
    by (simp add: ustr_def)
  have "lbrack \<notin> set (strip ?p)" unfolding h5 by (rule h6)
  note k3 = R3 [THEN conjunct2, THEN conjunct1, THEN mp, OF this]
  with h5 have c4: "rewrite_text ?p = ustr ''plain text''" by (simp add: ustr_def)
  note c5 = R2 [THEN conjunct1, THEN mp, OF h7]
  note c6 = R2 [THEN conjunct2, THEN conjunct1, THEN mp, OF h8]
  note c7 = R4 [THEN conjunct1, THEN iffD2, OF l2]
  from S4 [THEN conjunct1] e4 have c8: "\<not> spec_leaves_rbrack_lparen (strip ?c)" by simp
  note c9 = S4 [THEN conjunct2, THEN conjunct1, THEN mp, OF c8]
  note c14 = U4 [THEN conjunct2, THEN conjunct2, THEN conjunct1, THEN mp, OF e6, THEN iffD2, OF l3]
  have c10: "rewrite_loop (llm_fixed ?c) () [art_bbc] = (Inr [ustr ''Read this now''], ())"
    by (simp add: llm_fixed_def c2)
  note k4 = R4 [THEN conjunct2, THEN conjunct2, THEN conjunct2, THEN mp, OF c10]
  note c11 = k4 [THEN conjunct1]
  show ?thesis
    by (intro conjI h1 c1 c2 c3 c8 c9 c4 h7 c5 e1 c6 e2 l1 l2 c7 e6 l3 c14 c10 c11)
qed

section \<open>Verification: publishing\<close>

lemma slice_to_nonneg: "0 \<le> n \<Longrightarrow> slice_to xs n = take (nat n) xs"
  by (simp add: slice_to_def)

lemma length_slice_to_le: "length (slice_to xs n) \<le> length xs"
  by (simp add: slice_to_def)

lemma length_slice_to_nonneg: "0 \<le> n \<Longrightarrow> int (length (slice_to xs n)) = min n (int (length xs))"
  by (auto simp: slice_to_def min_def)

lemma write_and_upload_effect:
  assumes "write_and_upload P mu st name bs = (r, st')" "tmpdir st = fs @ [f0]" "name = length fs"
  shows "\<exists>img d. calls st' = calls st @ img \<and> (\<forall>c \<in> set img. \<not> is_create c)
           \<and> tmpdir st' = fs @ [d]"
  using assms
  by (auto simp: write_and_upload_def log_call_def Let_def split: prod.splits option.splits)

lemma with_tmpfile_effect:
  assumes "with_tmpfile P mu st bs = (r, st')"
  shows "(\<exists>img. calls st' = calls st @ img \<and> (\<forall>c \<in> set img. \<not> is_create c))
         \<and> (case fst (tmp_fault P (world st) TmpCreate) of
               Some e \<Rightarrow> tmpdir st' = tmpdir st \<and> r = Inl e
             | None \<Rightarrow> (\<exists>f. tmpdir st' = tmpdir st @ [f] \<and> \<not> is_open f))"
proof (cases "tmp_fault P (world st) TmpCreate")
  case (Pair flt w1)
  show ?thesis
  proof (cases flt)
    case (Some e)
    with Pair assms show ?thesis by (auto simp: with_tmpfile_def)
  next
    case None
    let ?st1 = "st\<lparr>world := w1, tmpdir := tmpdir st @ [\<lparr>file_data = [], is_open = True\<rparr>]\<rparr>"
    obtain r2 st2 where w: "write_and_upload P mu ?st1 (length (tmpdir st)) bs = (r2, st2)"
      by (cases "write_and_upload P mu ?st1 (length (tmpdir st)) bs")
    from write_and_upload_effect [OF w, of "tmpdir st"] obtain img d where
      e: "calls st2 = calls st @ img" "\<forall>c \<in> set img. \<not> is_create c"
         "tmpdir st2 = tmpdir st @ [d]"
      by auto
    from assms Pair None w have "st' = st2\<lparr>tmpdir := (tmpdir st2)[length (tmpdir st) := (tmpdir st2 ! length (tmpdir st))\<lparr>is_open := False\<rparr>]\<rparr>"
      by (simp add: with_tmpfile_def Let_def)
    with e Pair None show ?thesis by auto
  qed
qed

lemma attach_image_effect:
  assumes "attach_image P mu st a = (m, st')"
  shows "(\<exists>img. calls st' = calls st @ img \<and> (\<forall>c \<in> set img. \<not> is_create c))
         \<and> (\<exists>fs. tmpdir st' = tmpdir st @ fs \<and> length fs \<le> 1 \<and> (\<forall>f \<in> set fs. \<not> is_open f))"
proof (cases "image_url a")
  case None
  with assms show ?thesis by (simp add: attach_image_def)
next
  case (Some iu)
  show ?thesis
  proof (cases "iu = []")
    case True
    with Some assms show ?thesis by (simp add: attach_image_def)
  next
    case False
    obtain g w1 where g: "requests_get P (world st) iu = (g, w1)"
      by (cases "requests_get P (world st) iu")
    let ?st1 = "log_call (HttpGet iu) (st\<lparr>world := w1\<rparr>)"
    have st1: "calls ?st1 = calls st @ [HttpGet iu]" "tmpdir ?st1 = tmpdir st"
      by (simp_all add: log_call_def)
    show ?thesis
    proof (cases g)
      case (Inl e)
      with Some False g assms have "st' = ?st1" by (simp add: attach_image_def)
      with st1 show ?thesis by simp
    next
      case (Inr resp)
      show ?thesis
      proof (cases "status_code resp = 200")
        case False
        with Inr Some \<open>iu \<noteq> []\<close> g assms have "st' = ?st1" by (simp add: attach_image_def Let_def)
        with st1 show ?thesis by simp
      next
        case True
        obtain r2 st2 where w: "with_tmpfile P mu ?st1 (content resp) = (r2, st2)"
          by (cases "with_tmpfile P mu ?st1 (content resp)")
        from True Inr Some \<open>iu \<noteq> []\<close> g assms w have "st' = st2"
          by (auto simp: attach_image_def Let_def split: sum.splits)
        with with_tmpfile_effect [OF w] st1 show ?thesis
          by (auto split: option.splits)
      qed
    qed
  qed
qed


lemma post_one_effect:
  assumes "post_one P mu ct st (tweet, a) = (r, st')"
  shows "\<exists>m st1 o2 w2. attach_image P mu st a = (m, st1)
           \<and> ct (world st1) (full_tweet_of tweet a) (media_ids_of m) = (o2, w2)
           \<and> st' = log_call (CreateTweet (full_tweet_of tweet a) (media_ids_of m)) (st1\<lparr>world := w2\<rparr>)
           \<and> r = (case o2 of Inl e \<Rightarrow> failure_result (full_tweet_of tweet a) e
                            | Inr tid \<Rightarrow> success_result (full_tweet_of tweet a) tid)"
  using assms
  by (auto simp: post_one_def Let_def failure_result_def success_result_def
           split: prod.splits sum.splits)

lemma invariant_results:
  "spec_result_invariant (failure_result full e)"
  "spec_result_invariant (success_result full tid)"
  "spec_result_invariant (preview_result t)"
  by (simp_all add: spec_result_invariant_def failure_result_def success_result_def preview_result_def)

lemma post_one_summary:
  assumes "post_one P mu ct st (tweet, a) = (r, st')"
  shows "spec_result_invariant r \<and> tweet_text r = full_tweet_of tweet a
         \<and> (\<exists>img m. calls st' = calls st @ img @ [CreateTweet (full_tweet_of tweet a) m]
                     \<and> (\<forall>c \<in> set img. \<not> is_create c))
         \<and> (\<exists>fs. tmpdir st' = tmpdir st @ fs \<and> length fs \<le> 1 \<and> (\<forall>f \<in> set fs. \<not> is_open f))"
proof -
  from post_one_effect [OF assms] obtain m st1 o2 w2 where
      a: "attach_image P mu st a = (m, st1)"
      and s: "st' = log_call (CreateTweet (full_tweet_of tweet a) (media_ids_of m)) (st1\<lparr>world := w2\<rparr>)"
      and r: "r = (case o2 of Inl e \<Rightarrow> failure_result (full_tweet_of tweet a) e
                            | Inr tid \<Rightarrow> success_result (full_tweet_of tweet a) tid)"
    by blast
  from r have "spec_result_invariant r \<and> tweet_text r = full_tweet_of tweet a"
    by (cases o2) (simp_all add: invariant_results, simp_all add: failure_result_def success_result_def)
  moreover from attach_image_effect [OF a] s
  have "(\<exists>img m. calls st' = calls st @ img @ [CreateTweet (full_tweet_of tweet a) m]
                     \<and> (\<forall>c \<in> set img. \<not> is_create c))
         \<and> (\<exists>fs. tmpdir st' = tmpdir st @ fs \<and> length fs \<le> 1 \<and> (\<forall>f \<in> set fs. \<not> is_open f))"
    by (auto simp: log_call_def)
  ultimately show ?thesis by blast
qed

lemma post_loop_summary:
  "post_loop P mu ct st pairs = (rs, st') \<Longrightarrow>
     length rs = length pairs
     \<and> map tweet_text rs = map (\<lambda>p. full_tweet_of (fst p) (snd p)) pairs
     \<and> (\<forall>r \<in> set rs. spec_result_invariant r)
     \<and> (\<exists>cs ms. calls st' = calls st @ cs \<and> length ms = length pairs
           \<and> filter is_create cs
               = map (\<lambda>(p, m). CreateTweet (full_tweet_of (fst p) (snd p)) m) (zip pairs ms))
     \<and> (\<exists>fs. tmpdir st' = tmpdir st @ fs \<and> length fs \<le> length pairs \<and> (\<forall>f \<in> set fs. \<not> is_open f))"
proof (induction pairs arbitrary: st rs)
  case Nil
  then show ?case by simp
next
  case (Cons pair pairs)
  obtain r st1 where one: "post_one P mu ct st pair = (r, st1)"
    by (cases "post_one P mu ct st pair")
  obtain rs1 st2 where rest: "post_loop P mu ct st1 pairs = (rs1, st2)"
    by (cases "post_loop P mu ct st1 pairs")
  from Cons.prems one rest have eq: "rs = r # rs1" "st' = st2" by simp_all
  obtain tweet a where pair: "pair = (tweet, a)" by (cases pair)
  from post_one_summary [OF one [unfolded pair]] obtain img m fs1 where
      h1: "spec_result_invariant r" "tweet_text r = full_tweet_of tweet a"
          "calls st1 = calls st @ img @ [CreateTweet (full_tweet_of tweet a) m]"
          "\<forall>c \<in> set img. \<not> is_create c"
          "tmpdir st1 = tmpdir st @ fs1" "length fs1 \<le> 1" "\<forall>f \<in> set fs1. \<not> is_open f"
    by blast
  from rest eq have rest': "post_loop P mu ct st1 pairs = (rs1, st')" by simp
  from Cons.IH [OF rest'] obtain cs ms fs2 where
      h2: "length rs1 = length pairs"
          "map tweet_text rs1 = map (\<lambda>p. full_tweet_of (fst p) (snd p)) pairs"
          "\<forall>r \<in> set rs1. spec_result_invariant r"
          "calls st' = calls st1 @ cs" "length ms = length pairs"
          "filter is_create cs = map (\<lambda>(p, m). CreateTweet (full_tweet_of (fst p) (snd p)) m) (zip pairs ms)"
          "tmpdir st' = tmpdir st1 @ fs2" "length fs2 \<le> length pairs" "\<forall>f \<in> set fs2. \<not> is_open f"
    by blast
  have c: "calls st' = calls st @ (img @ [CreateTweet (full_tweet_of tweet a) m] @ cs)"
    using h1 h2 eq by simp
  have f: "filter is_create (img @ [CreateTweet (full_tweet_of tweet a) m] @ cs)
             = map (\<lambda>(p, m). CreateTweet (full_tweet_of (fst p) (snd p)) m) (zip (pair # pairs) (m # ms))"
    using h1(4) h2(6) pair by (simp add: filter_empty_conv [THEN iffD2])
  have l: "length (m # ms) = length (pair # pairs)" using h2(5) by simp
  have t: "tmpdir st' = tmpdir st @ (fs1 @ fs2)" "length (fs1 @ fs2) \<le> length (pair # pairs)"
          "\<forall>f \<in> set (fs1 @ fs2). \<not> is_open f"
    using h1 h2 eq by auto
  from c f l have calls_part: "\<exists>cs ms. calls st' = calls st @ cs \<and> length ms = length (pair # pairs)
           \<and> filter is_create cs
               = map (\<lambda>(p, m). CreateTweet (full_tweet_of (fst p) (snd p)) m) (zip (pair # pairs) ms)"
    by blast
  from t have tmp_part: "\<exists>fs. tmpdir st' = tmpdir st @ fs \<and> length fs \<le> length (pair # pairs)
           \<and> (\<forall>f \<in> set fs. \<not> is_open f)"
    by blast
  from h1 h2 eq pair have "length rs = length (pair # pairs)"
      "map tweet_text rs = map (\<lambda>p. full_tweet_of (fst p) (snd p)) (pair # pairs)"
      "\<forall>r \<in> set rs. spec_result_invariant r"
    by simp_all
  with calls_part tmp_part show ?case by blast
qed


lemma lower_char_eq:
  "(if 65 \<le> c \<and> c \<le> 90 then c + 32 else c) = (116::nat) \<longleftrightarrow> c = 116 \<or> c + 32 = 116"
  "(if 65 \<le> c \<and> c \<le> 90 then c + 32 else c) = (114::nat) \<longleftrightarrow> c = 114 \<or> c + 32 = 114"
  "(if 65 \<le> c \<and> c \<le> 90 then c + 32 else c) = (117::nat) \<longleftrightarrow> c = 117 \<or> c + 32 = 117"
  "(if 65 \<le> c \<and> c \<le> 90 then c + 32 else c) = (101::nat) \<longleftrightarrow> c = 101 \<or> c + 32 = 101"
  by auto

lemma py_lower_true: "py_lower s = ustr ''true'' \<longleftrightarrow> spec_true_ignoring_case s"
proof -
  have len: "length s = 4" if "py_lower s = ustr ''true'' \<or> spec_true_ignoring_case s"
    using that
    by (auto simp: py_lower_def ustr_def spec_true_ignoring_case_def
             dest: arg_cong [where f = length] list_all2_lengthD)
  show ?thesis
  proof (cases "length s = 4")
    case True
    then obtain c1 c2 c3 c4 where s: "s = [c1, c2, c3, c4]"
      by (auto simp: length_Suc_conv eval_nat_numeral)
    show ?thesis
      unfolding s by (simp add: spec_true_ignoring_case_def py_lower_def ustr_def lower_char_eq)
  next
    case False
    with len show ?thesis by blast
  qed
qed

lemma post_to_twitter_preview:
  "\<not> auto_post_flag (auto_post state) \<Longrightarrow>
     post_to_twitter P st state
       = (Inr (map preview_result (slice_to (state_get (rewritten_tweets state) [])
                                     (state_get (num_tweets_to_post state) 1))), st)"
  by (simp add: post_to_twitter_def Let_def)

lemma post_to_twitter_live:
  "auto_post_flag (auto_post state) \<Longrightarrow> twitter_client P = Some ct \<Longrightarrow> twitter_api_v1 P = Some mu \<Longrightarrow>
     post_to_twitter P st state
       = (case post_loop P mu ct st
                 (zip (slice_to (state_get (rewritten_tweets state) []) (state_get (num_tweets_to_post state) 1))
                      (slice_to (state_get (top_articles state) []) (state_get (num_tweets_to_post state) 1))) of
            (rs, st') \<Rightarrow> (Inr rs, st'))"
  by (simp add: post_to_twitter_def Let_def)

lemma post_to_twitter_no_clients:
  "auto_post_flag (auto_post state) \<Longrightarrow> twitter_client P = None \<or> twitter_api_v1 P = None \<Longrightarrow>
     post_to_twitter P st state
       = (Inl (Exception (ustr ''Twitter clients not initialized properly'')), st)"
  by (auto simp: post_to_twitter_def Let_def split: option.splits)

lemma post_to_twitter_summary:
  assumes "post_to_twitter P st state = (Inr rs, st')"
  shows "(\<forall>r \<in> set rs. spec_result_invariant r)
         \<and> length rs \<le> length (slice_to (state_get (rewritten_tweets state) [])
                                  (state_get (num_tweets_to_post state) 1))
         \<and> (\<exists>cs. calls st' = calls st @ cs
                \<and> length (filter is_create cs) = (if auto_post_flag (auto_post state) then length rs else 0))
         \<and> (\<exists>fs. tmpdir st' = tmpdir st @ fs \<and> (\<forall>f \<in> set fs. \<not> is_open f))"
proof (cases "auto_post_flag (auto_post state)")
  case False
  from assms post_to_twitter_preview [OF False, of P st]
  have e: "rs = map preview_result (slice_to (state_get (rewritten_tweets state) [])
                                     (state_get (num_tweets_to_post state) 1))" "st' = st"
    by simp_all
  from e(1) have "\<forall>r \<in> set rs. spec_result_invariant r" by (auto simp: invariant_results)
  moreover from e(1) have "length rs \<le> length (slice_to (state_get (rewritten_tweets state) [])
                                  (state_get (num_tweets_to_post state) 1))" by simp
  moreover from e(2) False have "\<exists>cs. calls st' = calls st @ cs
                \<and> length (filter is_create cs) = (if auto_post_flag (auto_post state) then length rs else 0)"
    by simp
  moreover from e(2) have "\<exists>fs. tmpdir st' = tmpdir st @ fs \<and> (\<forall>f \<in> set fs. \<not> is_open f)" by simp
  ultimately show ?thesis by blast
next
  case True
  let ?pairs = "zip (slice_to (state_get (rewritten_tweets state) []) (state_get (num_tweets_to_post state) 1))
                    (slice_to (state_get (top_articles state) []) (state_get (num_tweets_to_post state) 1))"
  have "\<not> (twitter_client P = None \<or> twitter_api_v1 P = None)"
  proof
    assume "twitter_client P = None \<or> twitter_api_v1 P = None"
    from post_to_twitter_no_clients [OF True this, of st] assms show False by simp
  qed
  then obtain ct mu where c: "twitter_client P = Some ct" "twitter_api_v1 P = Some mu"
    by auto
  obtain rs1 st1 where l1: "post_loop P mu ct st ?pairs = (rs1, st1)"
    by (cases "post_loop P mu ct st ?pairs")
  with assms post_to_twitter_live [OF True c, of st] have l: "post_loop P mu ct st ?pairs = (rs, st')"
    by simp
  from post_loop_summary [OF l] obtain cs ms fs where
      h: "length rs = length ?pairs" "\<forall>r \<in> set rs. spec_result_invariant r"
         "calls st' = calls st @ cs" "length ms = length ?pairs"
         "filter is_create cs = map (\<lambda>(p, m). CreateTweet (full_tweet_of (fst p) (snd p)) m) (zip ?pairs ms)"
         "tmpdir st' = tmpdir st @ fs" "\<forall>f \<in> set fs. \<not> is_open f"
    by blast
  have "length (filter is_create cs) = length (zip ?pairs ms)"
    unfolding h(5) by simp
  with h(1,4) have n: "length (filter is_create cs) = length rs" by simp
  from h(1) have len: "length rs \<le> length (slice_to (state_get (rewritten_tweets state) [])
                                  (state_get (num_tweets_to_post state) 1))"
    by simp
  from h(3) n True have "\<exists>cs. calls st' = calls st @ cs
                \<and> length (filter is_create cs) = (if auto_post_flag (auto_post state) then length rs else 0)"
    by simp
  moreover from h(6,7) have "\<exists>fs. tmpdir st' = tmpdir st @ fs \<and> (\<forall>f \<in> set fs. \<not> is_open f)"
    by blast
  ultimately show ?thesis using h(2) len by blast
qed








lemma with_tmpfile_no_fault:
  assumes "\<forall>w op. fst (tmp_fault P w op) = None" "with_tmpfile P mu st bs = (r, st')"
  shows "tmpdir st' = tmpdir st @ [\<lparr>file_data = bs, is_open = False\<rparr>]"
proof -
  have nf: "\<exists>w'. tmp_fault P w op = (None, w')" for w op
    using assms(1) by (metis prod.collapse)
  obtain w1 where c: "tmp_fault P (world st) TmpCreate = (None, w1)" using nf by blast
  obtain w2 where w: "tmp_fault P w1 TmpWrite = (None, w2)" using nf by blast
  obtain w3 where f: "tmp_fault P w2 TmpFlush = (None, w3)" using nf by blast
  obtain o4 w4 where u: "mu w3 (length (tmpdir st)) bs = (o4, w4)"
    by (cases "mu w3 (length (tmpdir st)) bs")
  from assms(2) c w f u show ?thesis
    by (auto simp: with_tmpfile_def write_and_upload_def log_call_def Let_def)
qed

lemma auto_post_flag_str: "auto_post_flag (Some (APStr s)) \<longleftrightarrow> spec_true_ignoring_case s"
  by (simp add: auto_post_flag_def state_get_def py_lower_true)

lemma main_input_state_num:
  "main_input_state py_int env = Inr s0 \<Longrightarrow>
     \<exists>n. py_int (getenv env (ustr ''NUM_TWEETS_TO_POST'') (ustr ''2'')) = Inr n \<and> num_tweets_to_post s0 = Some n"
  by (auto simp: main_input_state_def Let_def split: sum.splits)

text \<open>
  The results of the publish stage. Every result that the stage returns, in preview
  mode and in live mode, satisfies the invariant: success holds exactly when the post
  id and the post URL are both present and the error is absent, and fails exactly when
  id and URL are absent. The stage returns no more results than the slice
  \<open>tweets[:limit]\<close> has posts; for a limit that is not negative that is at most
  \<open>min limit n\<close>, \<open>n\<close> the number of available posts.
\<close>

lemma publish_results_invariant_nonneg_limit:
  "post_to_twitter P st state = (Inr rs, st') \<longrightarrow>
     (\<forall>r \<in> set rs. spec_result_invariant r)
     \<and> length rs \<le> length (slice_to (state_get (rewritten_tweets state) [])
                               (state_get (num_tweets_to_post state) 1))
     \<and> (0 \<le> state_get (num_tweets_to_post state) 1 \<longrightarrow>
           int (length rs) \<le> min (state_get (num_tweets_to_post state) 1)
                                 (int (length (state_get (rewritten_tweets state) []))))"
proof
  assume a: "post_to_twitter P st state = (Inr rs, st')"
  let ?n = "state_get (num_tweets_to_post state) 1"
  let ?tweets = "state_get (rewritten_tweets state) []"
  from post_to_twitter_summary [OF a]
  have i: "\<forall>r \<in> set rs. spec_result_invariant r" and l: "length rs \<le> length (slice_to ?tweets ?n)"
    by blast+
  have "0 \<le> ?n \<longrightarrow> int (length rs) \<le> min ?n (int (length ?tweets))"
  proof
    assume "0 \<le> ?n"
    then have "int (length (slice_to ?tweets ?n)) = min ?n (int (length ?tweets))"
      by (rule length_slice_to_nonneg)
    with l show "int (length rs) \<le> min ?n (int (length ?tweets))" by linarith
  qed
  with i l show "(\<forall>r \<in> set rs. spec_result_invariant r)
     \<and> length rs \<le> length (slice_to ?tweets ?n)
     \<and> (0 \<le> ?n \<longrightarrow> int (length rs) \<le> min ?n (int (length ?tweets)))"
    by blast
qed

text \<open>
  A live run of two pairs with limit 2 and three posts: the first tweet is refused,
  the second is created; both results satisfy the invariant, and \<open>2 \<le> min 2 3\<close>.
\<close>

lemma publish_results_invariant_nonneg_limit_example:
  "post_to_twitter demo_platform st0
       (publish_state three_tweets [art_404, art_bbc, art_blog] (Some (APBool True)) (Some 2))
     = (Inr [failure_result (ustr ''t1'' @ [10, 10] @ ustr ''https://blog.example/b'')
               (Exception (ustr ''403 Forbidden'')),
             success_result (ustr ''t2'' @ [10, 10] @ ustr ''https://bbc.example/a'') (ustr ''1001'')],
        \<lparr>world = 2, tmpdir = [\<lparr>file_data = [255, 216, 255], is_open = False\<rparr>],
         calls = [HttpGet (ustr ''https://img.example/404''),
                  CreateTweet (ustr ''t1'' @ [10, 10] @ ustr ''https://blog.example/b'') None,
                  HttpGet (ustr ''https://img.example/a.jpg''), MediaUpload 0,
                  CreateTweet (ustr ''t2'' @ [10, 10] @ ustr ''https://bbc.example/a'') (Some [7])]\<rparr>)
   \<and> spec_result_invariant (failure_result (ustr ''t1'' @ [10, 10] @ ustr ''https://blog.example/b'')
                                (Exception (ustr ''403 Forbidden'')))
   \<and> spec_result_invariant (success_result (ustr ''t2'' @ [10, 10] @ ustr ''https://bbc.example/a'')
                                (ustr ''1001''))
   \<and> int (length [failure_result (ustr ''t1'' @ [10, 10] @ ustr ''https://blog.example/b'')
                     (Exception (ustr ''403 Forbidden'')),
                   success_result (ustr ''t2'' @ [10, 10] @ ustr ''https://bbc.example/a'') (ustr ''1001'')])
        \<le> min 2 (int (length three_tweets))"
proof -
  let ?S = "publish_state three_tweets [art_404, art_bbc, art_blog] (Some (APBool True)) (Some 2)"
  let ?r1 = "failure_result (ustr ''t1'' @ [10, 10] @ ustr ''https://blog.example/b'')
               (Exception (ustr ''403 Forbidden''))"
  let ?r2 = "success_result (ustr ''t2'' @ [10, 10] @ ustr ''https://bbc.example/a'') (ustr ''1001'')"
  let ?stf = "\<lparr>world = 2, tmpdir = [\<lparr>file_data = [255, 216, 255], is_open = False\<rparr>],
         calls = [HttpGet (ustr ''https://img.example/404''),
                  CreateTweet (ustr ''t1'' @ [10, 10] @ ustr ''https://blog.example/b'') None,
                  HttpGet (ustr ''https://img.example/a.jpg''), MediaUpload 0,
                  CreateTweet (ustr ''t2'' @ [10, 10] @ ustr ''https://bbc.example/a'') (Some [7])]\<rparr> :: nat run_state"
  have e: "post_to_twitter demo_platform st0 ?S = (Inr [?r1, ?r2], ?stf)"
    by (simp add: post_to_twitter_def post_one_def attach_image_def with_tmpfile_def write_and_upload_def
        log_call_def full_tweet_of_def media_ids_of_def auto_post_flag_def state_get_def slice_to_def
        publish_state_def three_tweets_def Let_def ustr_def failure_result_def success_result_def
        demo_platform_def demo_get_def demo_upload_def demo_create_def st0_def art_bbc_def
        art_blog_def art_404_def)
  have n: "state_get (num_tweets_to_post ?S) 1 = 2" "state_get (rewritten_tweets ?S) [] = three_tweets"
    by (simp_all add: publish_state_def state_get_def)
  from publish_results_invariant_nonneg_limit [of demo_platform st0 ?S "[?r1, ?r2]" ?stf] e
  have "spec_result_invariant ?r1" "spec_result_invariant ?r2"
       "int (length [?r1, ?r2]) \<le> min 2 (int (length three_tweets))"
    by (simp_all add: n)
  with e show ?thesis by blast
qed

text \<open>
  Claim C5 at the limit \<open>-1\<close>, which \<open>main\<close> passes on unchecked when the environment
  has \<open>NUM_TWEETS_TO_POST=-1\<close>. With three posts and three articles the slices
  \<open>tweets[:-1]\<close> and \<open>articles[:-1]\<close> (lines 202, 212 and 213) keep two of each. In
  preview mode the stage returns two results. In live mode it attempts two pairs,
  calls \<open>create_tweet\<close> twice, creates one tweet and returns two results. Both results of
  each run satisfy the invariant, but their number, 2, exceeds the limit, and
  \<open>min limit n\<close> for the \<open>n = 3\<close> available posts, which is \<open>-1\<close>: the slice that the
  source's comment calls a strict limit drops posts from the end instead.
\<close>

theorem negative_limit_exceeds_publish_limit:
  "post_to_twitter no_clients st0
       (publish_state three_tweets [art_404, art_bbc, art_blog] (Some (APBool False)) (Some (- 1)))
     = (Inr [preview_result (ustr ''t1''), preview_result (ustr ''t2'')], st0)
   \<and> post_to_twitter demo_platform st0
       (publish_state three_tweets [art_404, art_bbc, art_blog] (Some (APBool True)) (Some (- 1)))
     = (Inr [failure_result (ustr ''t1'' @ [10, 10] @ ustr ''https://blog.example/b'')
               (Exception (ustr ''403 Forbidden'')),
             success_result (ustr ''t2'' @ [10, 10] @ ustr ''https://bbc.example/a'') (ustr ''1001'')],
        \<lparr>world = 2, tmpdir = [\<lparr>file_data = [255, 216, 255], is_open = False\<rparr>],
         calls = [HttpGet (ustr ''https://img.example/404''),
                  CreateTweet (ustr ''t1'' @ [10, 10] @ ustr ''https://blog.example/b'') None,
                  HttpGet (ustr ''https://img.example/a.jpg''), MediaUpload 0,
                  CreateTweet (ustr ''t2'' @ [10, 10] @ ustr ''https://bbc.example/a'') (Some [7])]\<rparr>)
   \<and> spec_result_invariant (preview_result (ustr ''t1''))
   \<and> spec_result_invariant (preview_result (ustr ''t2''))
   \<and> spec_result_invariant (failure_result (ustr ''t1'' @ [10, 10] @ ustr ''https://blog.example/b'')
                                (Exception (ustr ''403 Forbidden'')))
   \<and> spec_result_invariant (success_result (ustr ''t2'' @ [10, 10] @ ustr ''https://bbc.example/a'')
                                (ustr ''1001''))
   \<and> min (- 1) (int (length three_tweets)) = - 1
   \<and> - 1 < int (length [preview_result (ustr ''t1''), preview_result (ustr ''t2'')])
   \<and> min (- 1) (int (length three_tweets))
        < int (length [failure_result (ustr ''t1'' @ [10, 10] @ ustr ''https://blog.example/b'')
                         (Exception (ustr ''403 Forbidden'')),
                       success_result (ustr ''t2'' @ [10, 10] @ ustr ''https://bbc.example/a'')
                         (ustr ''1001'')])"
proof -
  have p: "post_to_twitter no_clients st0
       (publish_state three_tweets [art_404, art_bbc, art_blog] (Some (APBool False)) (Some (- 1)))
     = (Inr [preview_result (ustr ''t1''), preview_result (ustr ''t2'')], st0)"
    by (simp add: post_to_twitter_def auto_post_flag_def state_get_def slice_to_def
        publish_state_def three_tweets_def Let_def)
  have l: "post_to_twitter demo_platform st0
       (publish_state three_tweets [art_404, art_bbc, art_blog] (Some (APBool True)) (Some (- 1)))
     = (Inr [failure_result (ustr ''t1'' @ [10, 10] @ ustr ''https://blog.example/b'')
               (Exception (ustr ''403 Forbidden'')),
             success_result (ustr ''t2'' @ [10, 10] @ ustr ''https://bbc.example/a'') (ustr ''1001'')],
        \<lparr>world = 2, tmpdir = [\<lparr>file_data = [255, 216, 255], is_open = False\<rparr>],
         calls = [HttpGet (ustr ''https://img.example/404''),
                  CreateTweet (ustr ''t1'' @ [10, 10] @ ustr ''https://blog.example/b'') None,
                  HttpGet (ustr ''https://img.example/a.jpg''), MediaUpload 0,
                  CreateTweet (ustr ''t2'' @ [10, 10] @ ustr ''https://bbc.example/a'') (Some [7])]\<rparr>)"
    by (simp add: post_to_twitter_def post_one_def attach_image_def with_tmpfile_def write_and_upload_def
        log_call_def full_tweet_of_def media_ids_of_def auto_post_flag_def state_get_def slice_to_def
        publish_state_def three_tweets_def Let_def ustr_def failure_result_def success_result_def
        demo_platform_def demo_get_def demo_upload_def demo_create_def st0_def art_bbc_def
        art_blog_def art_404_def)
  have i: "spec_result_invariant (preview_result (ustr ''t1''))"
      "spec_result_invariant (preview_result (ustr ''t2''))"
      "spec_result_invariant (failure_result (ustr ''t1'' @ [10, 10] @ ustr ''https://blog.example/b'')
                                (Exception (ustr ''403 Forbidden'')))"
      "spec_result_invariant (success_result (ustr ''t2'' @ [10, 10] @ ustr ''https://bbc.example/a'')
                                (ustr ''1001''))"
    by (simp_all add: spec_result_invariant_def preview_result_def failure_result_def
        success_result_def)
  have n: "min (- 1) (int (length three_tweets)) = - 1" by (simp add: three_tweets_def)
  show ?thesis
    unfolding n by (intro conjI p l i) simp_all
qed

text \<open>
  Claim C6. Whenever auto-post is disabled, for every platform (also one with both
  clients uninitialised) the stage returns, without an exception, one result for each
  post of \<open>tweets[:limit]\<close>, and the run state it returns is the one it was given: no
  call is logged, no file is made, the world is untouched. For a limit that is not
  negative these are the first \<open>limit\<close> posts. Each result carries the original post
  text with nothing appended, success false, no id, no URL, and the error
  \<open>Auto-post disabled\<close>.
\<close>

theorem preview_mode_contacts_no_client:
  "(\<not> auto_post_flag (auto_post state) \<longrightarrow>
      post_to_twitter P st state
        = (Inr (map preview_result (slice_to (state_get (rewritten_tweets state) [])
                                      (state_get (num_tweets_to_post state) 1))), st))
   \<and> (0 \<le> n \<longrightarrow> slice_to tweets n = take (nat n) tweets)
   \<and> tweet_text (preview_result t) = t \<and> success (preview_result t) = False
   \<and> error (preview_result t) = Some (ustr ''Auto-post disabled'')
   \<and> tweet_id (preview_result t) = None \<and> tweet_url (preview_result t) = None"
  by (simp add: post_to_twitter_preview slice_to_nonneg preview_result_def)

text \<open>
  The preview scenario of the specification: limit 2 and three posts, auto-post
  false, both clients uninitialised. Exactly two results come back.
\<close>

theorem preview_mode_contacts_no_client_witness:
  "\<not> auto_post_flag (auto_post (publish_state three_tweets [art_404, art_bbc, art_blog]
                                   (Some (APBool False)) (Some 2)))
   \<and> twitter_client no_clients = None \<and> twitter_api_v1 no_clients = None
   \<and> post_to_twitter no_clients st0
        (publish_state three_tweets [art_404, art_bbc, art_blog] (Some (APBool False)) (Some 2))
       = (Inr [preview_result (ustr ''t1''), preview_result (ustr ''t2'')], st0)
   \<and> slice_to three_tweets 2 = take 2 three_tweets
   \<and> success (preview_result (ustr ''t1'')) = False
   \<and> error (preview_result (ustr ''t1'')) = Some (ustr ''Auto-post disabled'')
   \<and> tweet_text (preview_result (ustr ''t1'')) = ustr ''t1''"
proof -
  let ?S = "publish_state three_tweets [art_404, art_bbc, art_blog] (Some (APBool False)) (Some 2)"
  have f: "\<not> auto_post_flag (auto_post ?S)"
    by (simp add: auto_post_flag_def publish_state_def state_get_def)
  have c: "twitter_client no_clients = None" "twitter_api_v1 no_clients = None"
    by (simp_all add: no_clients_def)
  have n: "state_get (num_tweets_to_post ?S) 1 = 2" "state_get (rewritten_tweets ?S) [] = three_tweets"
    by (simp_all add: publish_state_def state_get_def)
  note T = preview_mode_contacts_no_client [of ?S no_clients st0 2 three_tweets "ustr ''t1''"]
  from T have sl: "slice_to three_tweets 2 = take 2 three_tweets" by simp
  have tk: "take 2 three_tweets = [ustr ''t1'', ustr ''t2'']" by (simp add: three_tweets_def)
  from T f have "post_to_twitter no_clients st0 ?S = (Inr (map preview_result (slice_to three_tweets 2)), st0)"
    by (simp add: n)
  then have r: "post_to_twitter no_clients st0 ?S
                  = (Inr [preview_result (ustr ''t1''), preview_result (ustr ''t2'')], st0)"
    by (simp add: sl tk)
  from T have "success (preview_result (ustr ''t1'')) = False"
      "error (preview_result (ustr ''t1'')) = Some (ustr ''Auto-post disabled'')"
      "tweet_text (preview_result (ustr ''t1'')) = ustr ''t1''"
    by blast+
  with f c r sl show ?thesis by blast
qed



text \<open>
  Claim C8, as stated, fails. Starting from an empty temporary directory, an
  image-attach attempt whose upload succeeds leaves the temporary file in the
  directory, closed and holding the fetched bytes; so does an attempt whose upload is
  rejected. The file is created with \<open>delete=False\<close> and the program never removes it.
\<close>

theorem tmpfile_not_deleted_counterexample:
  "tmpdir st0 = []
   \<and> attach_image demo_platform demo_upload st0 art_bbc
       = (Some 7, \<lparr>world = 0, tmpdir = [\<lparr>file_data = [255, 216, 255], is_open = False\<rparr>],
                   calls = [HttpGet (ustr ''https://img.example/a.jpg''), MediaUpload 0]\<rparr>)
   \<and> attach_image demo_platform demo_upload_rejected st0 art_bbc
       = (None, \<lparr>world = 0, tmpdir = [\<lparr>file_data = [255, 216, 255], is_open = False\<rparr>],
                 calls = [HttpGet (ustr ''https://img.example/a.jpg''), MediaUpload 0]\<rparr>)"
  by (simp add: attach_image_def with_tmpfile_def write_and_upload_def log_call_def Let_def
        demo_platform_def demo_get_def demo_upload_def demo_upload_rejected_def st0_def art_bbc_def ustr_def)

text \<open>
  Claim C8, amended. The temporary file of an image-attach attempt is closed once the
  upload attempt completes, whether it succeeded or failed, and it is not deleted:
  whenever the file was created, the temporary directory afterwards is the directory
  before followed by that one file, closed (and holding the fetched bytes when no
  file operation failed). An image attempt adds at most one file and removes none,
  and so does every run of the stage.
\<close>

theorem tmpfile_closed_but_kept:
  "(with_tmpfile P mu st bs = (r, st') \<and> fst (tmp_fault P (world st) TmpCreate) = None \<longrightarrow>
      (\<exists>f. tmpdir st' = tmpdir st @ [f] \<and> \<not> is_open f))
   \<and> (with_tmpfile P mu st bs = (r, st') \<and> (\<forall>w op. fst (tmp_fault P w op) = None) \<longrightarrow>
        tmpdir st' = tmpdir st @ [\<lparr>file_data = bs, is_open = False\<rparr>])
   \<and> (attach_image P mu st a = (m, st1) \<longrightarrow>
        (\<exists>fs. tmpdir st1 = tmpdir st @ fs \<and> length fs \<le> 1 \<and> (\<forall>f \<in> set fs. \<not> is_open f)))
   \<and> (post_to_twitter P st state = (Inr rs, stn) \<longrightarrow>
        (\<exists>fs. tmpdir stn = tmpdir st @ fs \<and> (\<forall>f \<in> set fs. \<not> is_open f)))"
proof (intro conjI impI)
  assume "with_tmpfile P mu st bs = (r, st') \<and> fst (tmp_fault P (world st) TmpCreate) = None"
  with with_tmpfile_effect [of P mu st bs r st']
  show "\<exists>f. tmpdir st' = tmpdir st @ [f] \<and> \<not> is_open f" by simp
next
  assume "with_tmpfile P mu st bs = (r, st') \<and> (\<forall>w op. fst (tmp_fault P w op) = None)"
  then show "tmpdir st' = tmpdir st @ [\<lparr>file_data = bs, is_open = False\<rparr>]"
    using with_tmpfile_no_fault by blast
next
  assume "attach_image P mu st a = (m, st1)"
  from attach_image_effect [OF this]
  show "\<exists>fs. tmpdir st1 = tmpdir st @ fs \<and> length fs \<le> 1 \<and> (\<forall>f \<in> set fs. \<not> is_open f)" by blast
next
  assume "post_to_twitter P st state = (Inr rs, stn)"
  from post_to_twitter_summary [OF this]
  show "\<exists>fs. tmpdir stn = tmpdir st @ fs \<and> (\<forall>f \<in> set fs. \<not> is_open f)" by blast
qed

text \<open>
  The amended C8 on the demo world: after a rejected upload and after a successful
  one, the directory holds the closed file with the bytes written.
\<close>

theorem tmpfile_closed_but_kept_witness:
  "fst (tmp_fault demo_platform (world st0) TmpCreate) = None
   \<and> fst (with_tmpfile demo_platform demo_upload_rejected st0 [1, 2]) = Inl (Exception (ustr ''media rejected''))
   \<and> tmpdir (snd (with_tmpfile demo_platform demo_upload_rejected st0 [1, 2]))
        = [\<lparr>file_data = [1, 2], is_open = False\<rparr>]
   \<and> fst (with_tmpfile demo_platform demo_upload st0 [1, 2]) = Inr 7
   \<and> tmpdir (snd (with_tmpfile demo_platform demo_upload st0 [1, 2]))
        = [\<lparr>file_data = [1, 2], is_open = False\<rparr>]
   \<and> length (tmpdir (snd (attach_image demo_platform demo_upload st0 art_bbc))) \<le> 1
   \<and> list_all (\<lambda>f. \<not> is_open f) (tmpdir (snd (attach_image demo_platform demo_upload st0 art_bbc)))"
proof -
  let ?wr = "with_tmpfile demo_platform demo_upload_rejected st0 [1, 2]"
  let ?wu = "with_tmpfile demo_platform demo_upload st0 [1, 2]"
  let ?at = "attach_image demo_platform demo_upload st0 art_bbc"
  let ?S = "publish_state [] [] None None"
  have nf: "\<forall>w op. fst (tmp_fault demo_platform w op) = None"
    by (simp add: demo_platform_def)
  then have nf0: "fst (tmp_fault demo_platform (world st0) TmpCreate) = None" by simp
  have r1: "fst ?wr = Inl (Exception (ustr ''media rejected''))" and r2: "fst ?wu = Inr 7"
    by (simp_all add: with_tmpfile_def write_and_upload_def log_call_def Let_def
        demo_platform_def demo_get_def demo_upload_def demo_upload_rejected_def st0_def art_bbc_def)
  have t0: "tmpdir st0 = []" by (simp add: st0_def)
  have e0: "post_to_twitter demo_platform st0 ?S = (Inr [], st0)"
    by (simp add: post_to_twitter_def auto_post_flag_def state_get_def publish_state_def slice_to_def)
  note T1 = tmpfile_closed_but_kept [where P = demo_platform and mu = demo_upload_rejected and st = st0
      and bs = "[1, 2]" and r = "fst ?wr" and st' = "snd ?wr" and a = art_bbc
      and m = "fst (attach_image demo_platform demo_upload_rejected st0 art_bbc)"
      and ?st1.0 = "snd (attach_image demo_platform demo_upload_rejected st0 art_bbc)"
      and state = ?S and rs = "[]" and stn = st0]
  note T2 = tmpfile_closed_but_kept [where P = demo_platform and mu = demo_upload and st = st0
      and bs = "[1, 2]" and r = "fst ?wu" and st' = "snd ?wu" and a = art_bbc
      and m = "fst ?at" and ?st1.0 = "snd ?at" and state = ?S and rs = "[]" and stn = st0]
  from T1 nf have k1: "tmpdir (snd ?wr) = [\<lparr>file_data = [1, 2], is_open = False\<rparr>]"
    by (simp add: t0)
  from T2 nf have k2: "tmpdir (snd ?wu) = [\<lparr>file_data = [1, 2], is_open = False\<rparr>]"
    by (simp add: t0)
  from T2 have "\<exists>fs. tmpdir (snd ?at) = tmpdir st0 @ fs \<and> length fs \<le> 1 \<and> (\<forall>f \<in> set fs. \<not> is_open f)"
    by simp
  then have k3: "length (tmpdir (snd ?at)) \<le> 1"
    and k4: "list_all (\<lambda>f. \<not> is_open f) (tmpdir (snd ?at))"
    by (auto simp: t0 list_all_iff)
  from nf0 r1 r2 k1 k2 k3 k4 show ?thesis by blast
qed

text \<open>
  Claim C9. For every string value of the auto-post flag, the flag is on exactly when
  the string equals \<open>true\<close> up to the case of its letters. With any other string the
  stage takes the preview path, returning the preview results and the run state
  unchanged; with such a string it takes the live path, which fails when a client is
  missing and otherwise runs the loop.
\<close>

theorem auto_post_string_true_only:
  "(auto_post_flag (Some (APStr s)) \<longleftrightarrow> spec_true_ignoring_case s)
   \<and> (auto_post state = Some (APStr s) \<and> \<not> spec_true_ignoring_case s \<longrightarrow>
        post_to_twitter P st state
          = (Inr (map preview_result (slice_to (state_get (rewritten_tweets state) [])
                                        (state_get (num_tweets_to_post state) 1))), st))
   \<and> (auto_post state = Some (APStr s) \<and> spec_true_ignoring_case s \<longrightarrow>
        post_to_twitter P st state
          = (case (twitter_client P, twitter_api_v1 P) of
               (Some create_tweet, Some media_upload) \<Rightarrow>
                 (case post_loop P media_upload create_tweet st
                         (zip (slice_to (state_get (rewritten_tweets state) []) (state_get (num_tweets_to_post state) 1))
                              (slice_to (state_get (top_articles state) []) (state_get (num_tweets_to_post state) 1))) of
                    (rs, st') \<Rightarrow> (Inr rs, st'))
             | _ \<Rightarrow> (Inl (Exception (ustr ''Twitter clients not initialized properly'')), st)))"
proof (intro conjI impI)
  show "auto_post_flag (Some (APStr s)) \<longleftrightarrow> spec_true_ignoring_case s"
    by (rule auto_post_flag_str)
next
  assume "auto_post state = Some (APStr s) \<and> \<not> spec_true_ignoring_case s"
  then have "\<not> auto_post_flag (auto_post state)" by (simp add: auto_post_flag_str)
  then show "post_to_twitter P st state
          = (Inr (map preview_result (slice_to (state_get (rewritten_tweets state) [])
                                        (state_get (num_tweets_to_post state) 1))), st)"
    by (rule post_to_twitter_preview)
next
  assume "auto_post state = Some (APStr s) \<and> spec_true_ignoring_case s"
  then have "auto_post_flag (auto_post state)" by (simp add: auto_post_flag_str)
  then show "post_to_twitter P st state
          = (case (twitter_client P, twitter_api_v1 P) of
               (Some create_tweet, Some media_upload) \<Rightarrow>
                 (case post_loop P media_upload create_tweet st
                         (zip (slice_to (state_get (rewritten_tweets state) []) (state_get (num_tweets_to_post state) 1))
                              (slice_to (state_get (top_articles state) []) (state_get (num_tweets_to_post state) 1))) of
                    (rs, st') \<Rightarrow> (Inr rs, st'))
             | _ \<Rightarrow> (Inl (Exception (ustr ''Twitter clients not initialized properly'')), st))"
    by (simp add: post_to_twitter_def Let_def)
qed

text \<open>
  C9 at \<open>TRUE\<close>, \<open>yes\<close> and \<open>1\<close>, on a platform without clients: \<open>yes\<close> gives the
  preview results, \<open>TRUE\<close> reaches the client check and fails there.
\<close>

theorem auto_post_string_true_only_witness:
  "spec_true_ignoring_case (ustr ''TRUE'') \<and> auto_post_flag (Some (APStr (ustr ''TRUE'')))
   \<and> \<not> spec_true_ignoring_case (ustr ''yes'') \<and> \<not> auto_post_flag (Some (APStr (ustr ''yes'')))
   \<and> \<not> auto_post_flag (Some (APStr (ustr ''1'')))
   \<and> post_to_twitter no_clients st0
        (publish_state three_tweets [art_404, art_bbc, art_blog] (Some (APStr (ustr ''yes''))) (Some 2))
       = (Inr [preview_result (ustr ''t1''), preview_result (ustr ''t2'')], st0)
   \<and> post_to_twitter no_clients st0
        (publish_state three_tweets [art_404, art_bbc, art_blog] (Some (APStr (ustr ''TRUE''))) (Some 2))
       = (Inl (Exception (ustr ''Twitter clients not initialized properly'')), st0)"
proof -
  let ?Sy = "publish_state three_tweets [art_404, art_bbc, art_blog] (Some (APStr (ustr ''yes''))) (Some 2)"
  let ?St = "publish_state three_tweets [art_404, art_bbc, art_blog] (Some (APStr (ustr ''TRUE''))) (Some 2)"
  have t: "spec_true_ignoring_case (ustr ''TRUE'')"
    and y: "\<not> spec_true_ignoring_case (ustr ''yes'')"
    and o: "\<not> spec_true_ignoring_case (ustr ''1'')"
    by (simp_all add: spec_true_ignoring_case_def ustr_def)
  have ay: "auto_post ?Sy = Some (APStr (ustr ''yes''))" and at: "auto_post ?St = Some (APStr (ustr ''TRUE''))"
    by (simp_all add: publish_state_def)
  have n: "slice_to (state_get (rewritten_tweets ?Sy) []) (state_get (num_tweets_to_post ?Sy) 1)
             = [ustr ''t1'', ustr ''t2'']"
    by (simp add: publish_state_def state_get_def slice_to_def three_tweets_def)
  have c: "twitter_client no_clients = None" "twitter_api_v1 no_clients = None"
    by (simp_all add: no_clients_def)
  note Ty = auto_post_string_true_only [where s = "ustr ''yes''" and state = ?Sy and P = no_clients and st = st0]
  note Tt = auto_post_string_true_only [where s = "ustr ''TRUE''" and state = ?St and P = no_clients and st = st0]
  note To = auto_post_string_true_only [where s = "ustr ''1''" and state = ?St and P = no_clients and st = st0]
  from Tt t have f1: "auto_post_flag (Some (APStr (ustr ''TRUE'')))" by blast
  from Ty y have f2: "\<not> auto_post_flag (Some (APStr (ustr ''yes'')))" by blast
  from To o have f3: "\<not> auto_post_flag (Some (APStr (ustr ''1'')))" by blast
  from Ty y ay have "post_to_twitter no_clients st0 ?Sy
      = (Inr (map preview_result (slice_to (state_get (rewritten_tweets ?Sy) [])
                                    (state_get (num_tweets_to_post ?Sy) 1))), st0)"
    by blast
  then have p1: "post_to_twitter no_clients st0 ?Sy
      = (Inr [preview_result (ustr ''t1''), preview_result (ustr ''t2'')], st0)"
    by (simp add: n)
  from Tt t at have "post_to_twitter no_clients st0 ?St
      = (case (twitter_client no_clients, twitter_api_v1 no_clients) of
           (Some create_tweet, Some media_upload) \<Rightarrow>
             (case post_loop no_clients media_upload create_tweet st0
                     (zip (slice_to (state_get (rewritten_tweets ?St) []) (state_get (num_tweets_to_post ?St) 1))
                          (slice_to (state_get (top_articles ?St) []) (state_get (num_tweets_to_post ?St) 1))) of
                (rs, st') \<Rightarrow> (Inr rs, st'))
         | _ \<Rightarrow> (Inl (Exception (ustr ''Twitter clients not initialized properly'')), st0))"
    by blast
  then have p2: "post_to_twitter no_clients st0 ?St
      = (Inl (Exception (ustr ''Twitter clients not initialized properly'')), st0)"
    by (simp add: c)
  from t f1 y f2 f3 p1 p2 show ?thesis by blast
qed

text \<open>
  Claim C10. When the state has no \<open>num_tweets_to_post\<close>, the stage returns at most
  one result and makes at most one post-creation call. The entry point always puts
  the key into its input state, and when the environment variable is unset (and
  \<open>int("2")\<close> is 2) its value is 2: the default 1 belongs to the stage alone.
\<close>

theorem missing_limit_defaults_to_one:
  "(num_tweets_to_post state = None \<and> post_to_twitter P st state = (Inr rs, st') \<longrightarrow>
      length rs \<le> 1 \<and> (\<exists>cs. calls st' = calls st @ cs \<and> length (filter is_create cs) \<le> 1))
   \<and> (env (ustr ''NUM_TWEETS_TO_POST'') = None \<and> py_int (ustr ''2'') = Inr 2
        \<and> main_input_state py_int env = Inr s0 \<longrightarrow> num_tweets_to_post s0 = Some 2)
   \<and> (main_input_state py_int env = Inr s0 \<longrightarrow> num_tweets_to_post s0 \<noteq> None)"
proof (intro conjI impI)
  assume a: "num_tweets_to_post state = None \<and> post_to_twitter P st state = (Inr rs, st')"
  then have n: "state_get (num_tweets_to_post state) 1 = 1" by (simp add: state_get_def)
  from a post_to_twitter_summary [of P st state rs st'] obtain cs where
      l: "length rs \<le> length (slice_to (state_get (rewritten_tweets state) []) (state_get (num_tweets_to_post state) 1))"
      and c: "calls st' = calls st @ cs"
         "length (filter is_create cs) = (if auto_post_flag (auto_post state) then length rs else 0)"
    by blast
  from l n show r: "length rs \<le> 1" by (simp add: slice_to_def)
  from c r have "length (filter is_create cs) \<le> 1" by (simp split: if_splits)
  with c(1) show "\<exists>cs. calls st' = calls st @ cs \<and> length (filter is_create cs) \<le> 1" by blast
next
  assume "env (ustr ''NUM_TWEETS_TO_POST'') = None \<and> py_int (ustr ''2'') = Inr 2
        \<and> main_input_state py_int env = Inr s0"
  with main_input_state_num [of py_int env s0] show "num_tweets_to_post s0 = Some 2"
    by (auto simp: getenv_def)
next
  assume "main_input_state py_int env = Inr s0"
  with main_input_state_num [of py_int env s0] show "num_tweets_to_post s0 \<noteq> None" by auto
qed

text \<open>
  C10 at concrete inputs: three posts, auto-post on and no limit in the state give
  one result; the entry point with an empty environment puts the limit 2 into the
  state.
\<close>

theorem missing_limit_defaults_to_one_witness:
  "num_tweets_to_post (publish_state three_tweets [art_404, art_bbc, art_blog] (Some (APBool True)) None) = None
   \<and> post_to_twitter demo_platform st0
        (publish_state three_tweets [art_404, art_bbc, art_blog] (Some (APBool True)) None)
       = (Inr [failure_result (full_tweet_of (ustr ''t1'') art_404) (Exception (ustr ''403 Forbidden''))],
          \<lparr>world = 1, tmpdir = [],
           calls = [HttpGet (ustr ''https://img.example/404''),
                    CreateTweet (full_tweet_of (ustr ''t1'') art_404) None]\<rparr>)
   \<and> length [failure_result (full_tweet_of (ustr ''t1'') art_404) (Exception (ustr ''403 Forbidden''))] \<le> 1
   \<and> int_of_digits (ustr ''2'') = Inr 2
   \<and> main_input_state int_of_digits Map.empty
       = Inr \<lparr>topic = Some (ustr ''india''), articles = Some [], top_articles = Some [],
              rewritten_tweets = Some [], auto_post = Some (APBool False),
              num_tweets_to_post = Some 2, tweet_results = Some []\<rparr>
   \<and> num_tweets_to_post \<lparr>topic = Some (ustr ''india''), articles = Some [], top_articles = Some [],
              rewritten_tweets = Some [], auto_post = Some (APBool False),
              num_tweets_to_post = Some 2, tweet_results = Some []\<rparr> = Some 2"
proof -
  let ?S = "publish_state three_tweets [art_404, art_bbc, art_blog] (Some (APBool True)) None"
  let ?r1 = "failure_result (full_tweet_of (ustr ''t1'') art_404) (Exception (ustr ''403 Forbidden''))"
  let ?sA = "\<lparr>world = 1, tmpdir = [],
           calls = [HttpGet (ustr ''https://img.example/404''),
                    CreateTweet (full_tweet_of (ustr ''t1'') art_404) None]\<rparr> :: nat run_state"
  let ?s0 = "\<lparr>topic = Some (ustr ''india''), articles = Some [], top_articles = Some [],
              rewritten_tweets = Some [], auto_post = Some (APBool False),
              num_tweets_to_post = Some 2, tweet_results = Some []\<rparr>"
  have m: "num_tweets_to_post ?S = None" by (simp add: publish_state_def)
  have e: "post_to_twitter demo_platform st0 ?S = (Inr [?r1], ?sA)"
    by (simp add: post_to_twitter_def post_one_def attach_image_def with_tmpfile_def write_and_upload_def
        log_call_def full_tweet_of_def media_ids_of_def auto_post_flag_def state_get_def slice_to_def
        publish_state_def three_tweets_def Let_def ustr_def failure_result_def success_result_def
        demo_platform_def demo_get_def demo_upload_def demo_create_def st0_def art_bbc_def
        art_blog_def art_404_def)
  have d: "int_of_digits (ustr ''2'') = Inr 2"
    by (simp add: int_of_digits_def parse_num_def ustr_def)
  have u: "Map.empty (ustr ''NUM_TWEETS_TO_POST'') = (None :: pystr option)" by simp
  have ms: "main_input_state int_of_digits Map.empty = Inr ?s0"
    by (simp add: main_input_state_def getenv_def d py_lower_def Let_def) (simp add: ustr_def)
  note T = missing_limit_defaults_to_one [where state = ?S and P = demo_platform and st = st0
      and rs = "[?r1]" and st' = ?sA and env = Map.empty and py_int = int_of_digits and ?s0.0 = ?s0]
  from T m e have l: "length [?r1] \<le> 1" by blast
  from T u d ms have k: "num_tweets_to_post ?s0 = Some 2" by blast
  from m e l d ms k show ?thesis by blast
qed

end
